theory Spec2Isabelle
  imports Complex_Main "HOL-Library.AList" "HOL-Library.Multiset"
begin

section \<open>Data model of \<open>boomi_log_analyzer.py\<close>\<close>

text \<open>
  The three dataclasses of the script.  Python integers are unbounded, so every
  byte count and every counter is an \<open>int\<close>.  \<open>ExecutionInfo\<close> and
  \<open>ProcessInfo\<close> both have fields called \<open>process_name\<close> and
  \<open>process_id\<close>; the fields of \<open>ExecutionInfo\<close> carry the prefix \<open>e_\<close>
  here.  A \<open>datetime\<close> is kept as its ISO text; no function below reads it.
\<close>

type_synonym datetime = string

record ExecutionInfo =
  execution_id :: string
  e_process_name :: string
  e_process_id :: string
  size_bytes :: int
  timestamp :: "datetime option"

record ProcessInfo =
  process_id :: string
  process_name :: string
  process_type :: string
  folder_name :: string

text \<open>
  A dataclass does not check the annotation of a field at run time:
  \<open>generate_execution_stats\<close> passes \<open>stats['process_info']\<close>, which starts as
  \<open>None\<close>, into \<open>ExecutionStats\<close>.  The field is therefore an option here, and
  \<open>keyed_process_info_set\<close> below proves that it is never \<open>None\<close> in a result.
\<close>

record ExecutionStats =
  process_info :: "ProcessInfo option"
  execution_count :: int
  total_size_bytes :: int
  max_size_bytes :: int

text \<open>
  A Python \<open>dict\<close> keeps its keys in insertion order and the loops of the script
  iterate in that order, so a dictionary is an association list with distinct keys:
  \<open>map_of\<close> looks a key up, \<open>AList.update\<close> overwrites the value of a present key in
  place and appends an absent one at the end, exactly as \<open>d[k] = v\<close> does.
\<close>

type_synonym ('k, 'v) dict = "('k \<times> 'v) list"

definition well_formed_dict :: "('k, 'v) dict \<Rightarrow> bool" where
  "well_formed_dict d = distinct (map fst d)"

section \<open>The properties of \<open>ExecutionStats\<close>\<close>

text \<open>
  Python's \<open>/\<close> is true division and yields a float.  The float is idealised as a
  real number: the claims about these accessors concern which branch is taken and which
  quotient is formed, not how it is rounded.  Division by zero raises
  \<open>ZeroDivisionError\<close>, which is a value of the model.
\<close>

datatype py_error = ZeroDivisionError | AttributeError

definition truediv :: "real \<Rightarrow> real \<Rightarrow> py_error + real" where
  "truediv a b = (if b = 0 then Inl ZeroDivisionError else Inr (a / b))"

definition total_size_mb :: "ExecutionStats \<Rightarrow> real" where
  "total_size_mb s = real_of_int (total_size_bytes s) / (1024 * 1024)"

definition avg_size_mb :: "ExecutionStats \<Rightarrow> py_error + real" where
  "avg_size_mb s =
     (if execution_count s = 0 then Inr 0
      else truediv (total_size_mb s) (real_of_int (execution_count s)))"

definition max_size_mb :: "ExecutionStats \<Rightarrow> real" where
  "max_size_mb s = real_of_int (max_size_bytes s) / (1024 * 1024)"

section \<open>\<open>get_file_size_recursive\<close>\<close>

text \<open>
  The exceptions the function can meet.  An \<open>OSError\<close> carries an errno, and Python
  raises the subclass \<open>FileNotFoundError\<close> for ENOENT, \<open>NotADirectoryError\<close> for
  ENOTDIR and \<open>PermissionError\<close> for EACCES and EPERM.  \<open>OSError_EBADF\<close> and
  \<open>OSError_ELOOP\<close> are plain \<open>OSError\<close>s of those two errnos, \<open>OSError\<close> is one of
  any other errno, and \<open>RuntimeError\<close> stands for an exception that is no \<open>OSError\<close>.
\<close>

datatype exn =
  PermissionError | FileNotFoundError | NotADirectoryError | OSError_EBADF | OSError_ELOOP
  | OSError | RuntimeError

text \<open>\<open>except (OSError, PermissionError)\<close> catches \<open>OSError\<close> and its subclasses.\<close>

fun is_OSError :: "exn \<Rightarrow> bool" where
  "is_OSError RuntimeError = False"
| "is_OSError e = True"

text \<open>
  \<open>pathlib._ignore_error\<close>: the errnos ENOENT, ENOTDIR, EBADF and ELOOP.  \<open>Path.exists\<close>
  and \<open>Path.is_file\<close> answer \<open>False\<close> when \<open>stat\<close> fails with one of them and let
  every other exception pass.
\<close>

fun ignore_error :: "exn \<Rightarrow> bool" where
  "ignore_error FileNotFoundError = True"
| "ignore_error NotADirectoryError = True"
| "ignore_error OSError_EBADF = True"
| "ignore_error OSError_ELOOP = True"
| "ignore_error e = False"

text \<open>
  What the function sees of the file system.  For a directory \<open>path.rglob('*')\<close>
  yields a sequence of items, and the loop body asks each one \<open>is_file()\<close> and, for a
  file, \<open>stat().st_size\<close>.  An item is thus a regular file with its size, something that
  is not a regular file, or an item at which the body (or the generator itself) raises.
\<close>

datatype item = RegularFile nat | NotAFile | Raises exn

text \<open>
  The path the function is called on: nothing is there, a regular file of some size is
  there, or something else is there (a directory, with the items of its walk).
  \<open>Unreachable e p\<close> is a path at which \<open>p\<close> is to be found, but on which \<open>stat\<close>
  fails with \<open>e\<close>: below a directory the process may not search, \<open>stat\<close> fails with
  EACCES whether or not the name exists.
\<close>

datatype path = Missing | SingleFile nat | Directory "item list" | Unreachable exn path

text \<open>
  \<open>path.stat()\<close>: the exception raised, or whether the path is a regular file and its
  \<open>st_size\<close>.  The size of a directory entry itself is read by no line of the
  function and is left at 0.
\<close>

datatype stat_result = Stat bool nat

fun root_stat :: "path \<Rightarrow> exn + stat_result" where
  "root_stat Missing = Inl FileNotFoundError"
| "root_stat (SingleFile n) = Inr (Stat True n)"
| "root_stat (Directory items) = Inr (Stat False 0)"
| "root_stat (Unreachable e p) = Inl e"

definition path_exists :: "path \<Rightarrow> exn + bool" where
  "path_exists p =
     (case root_stat p of
        Inl e \<Rightarrow> if ignore_error e then Inr False else Inl e
      | Inr st \<Rightarrow> Inr True)"

definition path_is_file :: "path \<Rightarrow> exn + bool" where
  "path_is_file p =
     (case root_stat p of
        Inl e \<Rightarrow> if ignore_error e then Inr False else Inl e
      | Inr (Stat regular n) \<Rightarrow> Inr regular)"

definition path_st_size :: "path \<Rightarrow> exn + nat" where
  "path_st_size p =
     (case root_stat p of
        Inl e \<Rightarrow> Inl e
      | Inr (Stat regular n) \<Rightarrow> Inr n)"

fun rglob :: "path \<Rightarrow> item list" where
  "rglob (Directory items) = items"
| "rglob p = []"

text \<open>
  The result of a call: the exception that escapes, or the returned size together with
  the warnings printed (each \<open>Warning: Could not access {path}: {e}\<close> is recorded by
  its exception \<open>e\<close>; the path named is always the root).
\<close>

type_synonym scan_result = "exn + (nat \<times> exn list)"

text \<open>
  The \<open>for\<close> loop inside the \<open>try\<close>: it runs until the items are exhausted or one
  raises.  An exception leaves the loop; \<open>total_size\<close> keeps what was added so far.
\<close>

fun walk :: "item list \<Rightarrow> nat \<Rightarrow> nat \<times> exn option" where
  "walk [] total_size = (total_size, None)"
| "walk (RegularFile n # items) total_size = walk items (total_size + n)"
| "walk (NotAFile # items) total_size = walk items total_size"
| "walk (Raises e # items) total_size = (total_size, Some e)"

text \<open>
  Lines 75--89.  The tests \<open>path.exists()\<close> and \<open>path.is_file()\<close> and the read
  \<open>path.stat().st_size\<close> stand before the \<open>try\<close>: an exception of theirs escapes.
  Only the loop is inside it.
\<close>

definition get_file_size_recursive :: "path \<Rightarrow> scan_result" where
  "get_file_size_recursive p =
     (case path_exists p of
        Inl e \<Rightarrow> Inl e
      | Inr False \<Rightarrow> Inr (0, [])
      | Inr True \<Rightarrow>
          (case path_is_file p of
             Inl e \<Rightarrow> Inl e
           | Inr True \<Rightarrow>
               (case path_st_size p of
                  Inl e \<Rightarrow> Inl e
                | Inr n \<Rightarrow> Inr (n, []))
           | Inr False \<Rightarrow>
               (case walk (rglob p) 0 of
                  (total_size, None) \<Rightarrow> Inr (total_size, [])
                | (total_size, Some e) \<Rightarrow>
                    if is_OSError e then Inr (total_size, [e]) else Inl e)))"

text \<open>The sum of the sizes of the regular files among some items.\<close>

fun regular_sizes :: "item list \<Rightarrow> nat" where
  "regular_sizes [] = 0"
| "regular_sizes (RegularFile n # items) = n + regular_sizes items"
| "regular_sizes (i # items) = regular_sizes items"

section \<open>The reconciliation engine\<close>

subsection \<open>\<open>create_process_name_to_id_mapping\<close>\<close>

text \<open>
  The index is only ever read with \<open>get\<close>, so its order is immaterial and it is a
  map.  The loop runs over \<open>processes.items()\<close> in order; each step stores the key of
  the entry under the display name of its \<open>ProcessInfo\<close>.
\<close>

definition create_process_name_to_id_mapping ::
    "(string, ProcessInfo) dict \<Rightarrow> (string \<rightharpoonup> string)" where
  "create_process_name_to_id_mapping processes =
     fold (\<lambda>(pid, pinfo) name_to_id. name_to_id(process_name pinfo \<mapsto> pid))
       processes Map.empty"

subsection \<open>The fallback identifier\<close>

text \<open>Decimal text of an integer, as an f-string renders it.\<close>

definition digit_char :: "nat \<Rightarrow> char" where
  "digit_char d = ''0123456789'' ! d"

fun str_nat :: "nat \<Rightarrow> string" where
  "str_nat n = (if n < 10 then [digit_char n] else str_nat (n div 10) @ [digit_char (n mod 10)])"

declare str_nat.simps [simp del]

definition str_int :: "int \<Rightarrow> string" where
  "str_int i = (if i < 0 then CHR ''-'' # str_nat (nat (- i)) else str_nat (nat i))"

text \<open>
  \<open>hash\<close> of a string is a function of the string for the life of one interpreter
  (it is salted per process), so it is a parameter \<open>h\<close> of the model.  Python's \<open>%\<close>
  with a positive modulus is non-negative, like \<open>mod\<close> on \<open>int\<close>.
\<close>

definition fallback_id :: "(string \<Rightarrow> int) \<Rightarrow> string \<Rightarrow> string" where
  "fallback_id h name = ''unknown_process_'' @ str_int (h name mod 10000)"

text \<open>
  Lines 353--358: the identifier an execution's display name resolves to.  An empty
  identifier found in the index is falsy and is treated like a missing one.
\<close>

definition resolve :: "(string \<Rightarrow> int) \<Rightarrow> (string \<rightharpoonup> string) \<Rightarrow> string \<Rightarrow> string" where
  "resolve h name_to_id name =
     (let process_id = (case name_to_id name of Some i \<Rightarrow> i | None \<Rightarrow> '''')
      in if process_id = '''' then fallback_id h name else process_id)"

subsection \<open>\<open>generate_execution_stats\<close>\<close>

text \<open>The value type of \<open>stats_dict\<close>: a dictionary with five fixed keys.\<close>

record bucket =
  b_process_info :: "ProcessInfo option"
  b_execution_count :: int
  total_execution_size :: int
  max_execution_size :: int
  process_definition_size :: int

definition default_bucket :: bucket where
  "default_bucket =
     \<lparr>b_process_info = None, b_execution_count = 0, total_execution_size = 0,
      max_execution_size = 0, process_definition_size = 0\<rparr>"

definition placeholder :: "string \<Rightarrow> string \<Rightarrow> ProcessInfo" where
  "placeholder pid name =
     \<lparr>process_id = pid, process_name = name, process_type = ''unknown'', folder_name = ''''\<rparr>"

text \<open>
  Lines 361--375, the update of one bucket by one execution: the three counters, then
  the \<open>ProcessInfo\<close> (the real one whenever the identifier is a key of
  \<open>processes\<close>, otherwise a placeholder the first time).
\<close>

definition update_bucket ::
    "(string, ProcessInfo) dict \<Rightarrow> string \<Rightarrow> ExecutionInfo \<Rightarrow> bucket \<Rightarrow> bucket" where
  "update_bucket processes pid execution stats =
     (let stats1 = stats
            \<lparr>b_execution_count := b_execution_count stats + 1,
             total_execution_size := total_execution_size stats + size_bytes execution,
             max_execution_size := max (max_execution_size stats) (size_bytes execution)\<rparr>
      in case map_of processes pid of
           Some pinfo \<Rightarrow> stats1\<lparr>b_process_info := Some pinfo\<rparr>
         | None \<Rightarrow>
             (if b_process_info stats1 = None
              then stats1\<lparr>b_process_info := Some (placeholder pid (e_process_name execution))\<rparr>
              else stats1))"

text \<open>
  One iteration of the loop over the executions (lines 351--375).  \<open>stats_dict\<close> is a
  \<open>defaultdict\<close>: reading a missing key inserts the default bucket at the end.
\<close>

definition execution_step ::
    "(string \<Rightarrow> int) \<Rightarrow> (string, ProcessInfo) dict \<Rightarrow> (string \<rightharpoonup> string) \<Rightarrow>
     ExecutionInfo \<Rightarrow> (string, bucket) dict \<Rightarrow> (string, bucket) dict" where
  "execution_step h processes name_to_id execution stats_dict =
     (let pid = resolve h name_to_id (e_process_name execution);
          stats = (case map_of stats_dict pid of Some b \<Rightarrow> b | None \<Rightarrow> default_bucket)
      in AList.update pid (update_bucket processes pid execution stats) stats_dict)"

text \<open>One iteration of the loop over \<open>process_sizes.items()\<close> (lines 378--398).\<close>

definition definition_step ::
    "(string, ProcessInfo) dict \<Rightarrow> string \<times> int \<Rightarrow> (string, bucket) dict \<Rightarrow> (string, bucket) dict" where
  "definition_step processes entry stats_dict =
     (let pid = fst entry; definition_size = snd entry
      in case map_of stats_dict pid of
           Some b \<Rightarrow> AList.update pid (b\<lparr>process_definition_size := definition_size\<rparr>) stats_dict
         | None \<Rightarrow>
             AList.update pid
               \<lparr>b_process_info =
                  Some (case map_of processes pid of
                          Some pinfo \<Rightarrow> pinfo
                        | None \<Rightarrow>
                            \<lparr>process_id = pid, process_name = ''NO_EXECUTIONS_FOUND'',
                             process_type = ''unknown'', folder_name = ''''\<rparr>),
                b_execution_count = 0, total_execution_size = 0,
                max_execution_size = 0, process_definition_size = definition_size\<rparr>
               stats_dict)"

text \<open>\<open>stats_dict\<close> after the first loop, and after both loops.\<close>

definition execution_buckets ::
    "(string \<Rightarrow> int) \<Rightarrow> (string, ProcessInfo) dict \<Rightarrow> ExecutionInfo list \<Rightarrow> (string, bucket) dict" where
  "execution_buckets h processes executions =
     fold (execution_step h processes (create_process_name_to_id_mapping processes))
       executions []"

definition merged_buckets ::
    "(string \<Rightarrow> int) \<Rightarrow> (string, ProcessInfo) dict \<Rightarrow> (string, int) dict \<Rightarrow>
     ExecutionInfo list \<Rightarrow> (string, bucket) dict" where
  "merged_buckets h processes process_sizes executions =
     fold (definition_step processes) process_sizes (execution_buckets h processes executions)"

text \<open>Lines 408--415: the \<open>ExecutionStats\<close> built from one bucket.\<close>

definition finalize :: "bucket \<Rightarrow> ExecutionStats" where
  "finalize stats =
     \<lparr>process_info = b_process_info stats,
      execution_count = b_execution_count stats,
      total_size_bytes = total_execution_size stats + process_definition_size stats,
      max_size_bytes = max (max_execution_size stats) (process_definition_size stats)\<rparr>"

text \<open>
  The last loop (lines 401--416) runs over \<open>stats_dict.items()\<close>, skips the buckets
  without executions and appends one \<open>ExecutionStats\<close> for each other.
  \<open>keyed_execution_stats\<close> keeps the loop variable \<open>process_id\<close> beside each element;
  \<open>generate_execution_stats\<close> is the list the function returns.  The two diagnostic
  \<open>print\<close> calls about unknown names do not influence the result and are left out.
\<close>

definition keyed_execution_stats ::
    "(string \<Rightarrow> int) \<Rightarrow> (string, ProcessInfo) dict \<Rightarrow> (string, int) dict \<Rightarrow>
     ExecutionInfo list \<Rightarrow> (string \<times> ExecutionStats) list" where
  "keyed_execution_stats h processes process_sizes executions =
     map (\<lambda>(pid, stats). (pid, finalize stats))
       (filter (\<lambda>(pid, stats). b_execution_count stats \<noteq> 0)
          (merged_buckets h processes process_sizes executions))"

definition generate_execution_stats ::
    "(string \<Rightarrow> int) \<Rightarrow> (string, ProcessInfo) dict \<Rightarrow> (string, int) dict \<Rightarrow>
     ExecutionInfo list \<Rightarrow> ExecutionStats list" where
  "generate_execution_stats h processes process_sizes executions =
     map snd (keyed_execution_stats h processes process_sizes executions)"

section \<open>\<open>write_csv_report\<close>\<close>

text \<open>
  The cells handed to \<open>csv.writer\<close>: strings, integers and floats.  The function's
  effect is the file it writes, which is modelled as the list of rows, header first.
\<close>

datatype cell = Text string | Whole int | Decimal real

definition csv_header :: "string list" where
  "csv_header =
     [''Process Name'', ''Process ID'', ''Process Type'', ''Folder Path'',
      ''Execution Count'', ''Total Size (Bytes)'', ''Total Size (MB)'',
      ''Average Size (MB)'', ''Max Size (MB)'', ''Process Definition Size (MB)'',
      ''Execution Logs Size (MB)'']"

text \<open>
  \<open>hasattr(stats, 'process_definition_size_mb')\<close> followed by the read of that
  attribute.  \<open>ExecutionStats\<close> declares the fields \<open>process_info\<close>,
  \<open>execution_count\<close>, \<open>total_size_bytes\<close>, \<open>max_size_bytes\<close> and the properties
  \<open>total_size_mb\<close>, \<open>avg_size_mb\<close>, \<open>max_size_mb\<close>; nothing in the script defines
  or assigns an attribute of this name, so the lookup finds nothing.
\<close>

definition process_definition_size_mb :: "ExecutionStats \<Rightarrow> real option" where
  "process_definition_size_mb stats = None"

text \<open>
  Lines 467--488, one data row.  \<open>definition_size_mb\<close> starts as the integer 0 and
  \<open>execution_size_mb\<close> as \<open>total_size_mb\<close>; only the branch behind \<open>hasattr\<close>
  changes them.  Reading a field of \<open>process_info\<close> when it is \<open>None\<close> raises
  \<open>AttributeError\<close>.
\<close>

definition csv_row :: "ExecutionStats \<Rightarrow> py_error + cell list" where
  "csv_row stats =
     (let (definition_size_mb, execution_size_mb) =
            (case process_definition_size_mb stats of
               Some d \<Rightarrow> (Decimal d, Decimal (total_size_mb stats - d))
             | None \<Rightarrow> (Whole 0, Decimal (total_size_mb stats)))
      in case process_info stats of
           None \<Rightarrow> Inl AttributeError
         | Some pinfo \<Rightarrow>
             (case avg_size_mb stats of
                Inl err \<Rightarrow> Inl err
              | Inr avg \<Rightarrow>
                  Inr [Text (process_name pinfo), Text (process_id pinfo),
                       Text (process_type pinfo), Text (folder_name pinfo),
                       Whole (execution_count stats), Whole (total_size_bytes stats),
                       Decimal (total_size_mb stats), Decimal avg,
                       Decimal (max_size_mb stats), definition_size_mb, execution_size_mb]))"

fun csv_rows :: "ExecutionStats list \<Rightarrow> py_error + cell list list" where
  "csv_rows [] = Inr []"
| "csv_rows (stats # stats_list) =
     (case csv_row stats of
        Inl err \<Rightarrow> Inl err
      | Inr row \<Rightarrow>
          (case csv_rows stats_list of
             Inl err \<Rightarrow> Inl err
           | Inr rows \<Rightarrow> Inr (row # rows)))"

definition write_csv_report :: "ExecutionStats list \<Rightarrow> py_error + cell list list" where
  "write_csv_report stats_list =
     (case csv_rows stats_list of
        Inl err \<Rightarrow> Inl err
      | Inr rows \<Rightarrow> Inr (map Text csv_header # rows))"

section \<open>Notions used to state the properties\<close>

text \<open>
  The executions of a list that \<open>generate_execution_stats\<close> files under the identifier
  \<open>pid\<close>, in their order.
\<close>

definition executions_of ::
    "(string \<Rightarrow> int) \<Rightarrow> (string, ProcessInfo) dict \<Rightarrow> string \<Rightarrow> ExecutionInfo list \<Rightarrow>
     ExecutionInfo list" where
  "executions_of h processes pid executions =
     filter (\<lambda>e. resolve h (create_process_name_to_id_mapping processes) (e_process_name e) = pid)
       executions"

text \<open>The bucket of \<open>pid\<close> after the first loop, when it exists.\<close>

definition execution_bucket ::
    "(string \<Rightarrow> int) \<Rightarrow> (string, ProcessInfo) dict \<Rightarrow> string \<Rightarrow> ExecutionInfo list \<Rightarrow> bucket" where
  "execution_bucket h processes pid executions =
     fold (update_bucket processes pid) (executions_of h processes pid executions) default_bucket"

text \<open>The bucket the second loop creates for an identifier without executions.\<close>

definition no_execution_bucket :: "(string, ProcessInfo) dict \<Rightarrow> string \<Rightarrow> bucket" where
  "no_execution_bucket processes pid =
     \<lparr>b_process_info =
        Some (case map_of processes pid of
                Some pinfo \<Rightarrow> pinfo
              | None \<Rightarrow>
                  \<lparr>process_id = pid, process_name = ''NO_EXECUTIONS_FOUND'',
                   process_type = ''unknown'', folder_name = ''''\<rparr>),
      b_execution_count = 0, total_execution_size = 0,
      max_execution_size = 0, process_definition_size = 0\<rparr>"

text \<open>
  The effect of the second loop on one bucket.  The last entry of \<open>process_sizes\<close> for
  a key is the one that stays; in a well-formed dictionary it is the only one.
\<close>

definition apply_definition :: "(string, int) dict \<Rightarrow> string \<Rightarrow> bucket \<Rightarrow> bucket" where
  "apply_definition process_sizes pid b =
     (case map_of (rev process_sizes) pid of
        None \<Rightarrow> b
      | Some d \<Rightarrow> b\<lparr>process_definition_size := d\<rparr>)"

text \<open>The definition size of an identifier: its entry of \<open>process_sizes\<close>, else 0.\<close>

definition definition_size :: "(string, int) dict \<Rightarrow> string \<Rightarrow> int" where
  "definition_size process_sizes pid =
     (case map_of process_sizes pid of Some d \<Rightarrow> d | None \<Rightarrow> 0)"

text \<open>
  What a permutation of the executions must preserve: for each reported identifier its
  three counters; and the counters of an element alone.
\<close>

definition stats_summary :: "string \<times> ExecutionStats \<Rightarrow> string \<times> int \<times> int \<times> int" where
  "stats_summary ks =
     (fst ks, execution_count (snd ks), total_size_bytes (snd ks), max_size_bytes (snd ks))"

definition counters :: "ExecutionStats \<Rightarrow> int \<times> int \<times> int" where
  "counters s = (execution_count s, total_size_bytes s, max_size_bytes s)"

text \<open>
  The elements of a list in the order of their first occurrence, each once: the order in
  which a dictionary gains the keys that are stored into it one after the other.
\<close>

fun first_occurrences :: "'a list \<Rightarrow> 'a list" where
  "first_occurrences [] = []"
| "first_occurrences (x # xs) = x # filter (\<lambda>y. y \<noteq> x) (first_occurrences xs)"

text \<open>
  The identifiers the executions resolve to, in the order in which they first occur.
\<close>

definition resolved_ids ::
    "(string \<Rightarrow> int) \<Rightarrow> (string, ProcessInfo) dict \<Rightarrow> ExecutionInfo list \<Rightarrow> string list" where
  "resolved_ids h processes executions =
     first_occurrences
       (map (\<lambda>e. resolve h (create_process_name_to_id_mapping processes) (e_process_name e))
          executions)"

text \<open>
  No identifier outside the definitions collects executions of two different display
  names: no two different unresolved names share a fallback identifier.
\<close>

definition one_name_per_placeholder ::
    "(string \<Rightarrow> int) \<Rightarrow> (string, ProcessInfo) dict \<Rightarrow> ExecutionInfo list \<Rightarrow> bool" where
  "one_name_per_placeholder h processes executions =
     (\<forall>e1 \<in> set executions. \<forall>e2 \<in> set executions.
        resolve h (create_process_name_to_id_mapping processes) (e_process_name e1)
          = resolve h (create_process_name_to_id_mapping processes) (e_process_name e2)
        \<longrightarrow> resolve h (create_process_name_to_id_mapping processes) (e_process_name e1)
              \<in> fst ` set processes
            \<or> e_process_name e1 = e_process_name e2)"

section \<open>Concrete inputs\<close>

text \<open>
  An execution record as \<open>parse_execution_log\<close> builds it: the identifier is left empty
  and no timestamp was found.
\<close>

definition run_record :: "string \<Rightarrow> string \<Rightarrow> int \<Rightarrow> ExecutionInfo" where
  "run_record rid name n =
     \<lparr>execution_id = rid, e_process_name = name, e_process_id = '''',
      size_bytes = n, timestamp = None\<rparr>"

definition scenario_hash :: "string \<Rightarrow> int" where
  "scenario_hash name = 4242"

definition invoice_sync :: ProcessInfo where
  "invoice_sync =
     \<lparr>process_id = ''A1'', process_name = ''Invoice Sync'',
      process_type = ''process'', folder_name = ''Finance''\<rparr>"

definition scenario_executions :: "ExecutionInfo list" where
  "scenario_executions =
     [run_record ''execution-1'' ''Invoice Sync'' 2000,
      run_record ''execution-2'' ''Invoice Sync'' 3000,
      run_record ''execution-3'' ''Unknown Flow'' 500]"

definition invoice_sync_stats :: ExecutionStats where
  "invoice_sync_stats =
     \<lparr>process_info = Some invoice_sync, execution_count = 2,
      total_size_bytes = 6000, max_size_bytes = 3000\<rparr>"

definition idle_sizes :: "(string, int) dict" where
  "idle_sizes = [(''A1'', 1000), (''B2'', 500)]"

definition scenario_executions_reordered :: "ExecutionInfo list" where
  "scenario_executions_reordered =
     [run_record ''execution-3'' ''Unknown Flow'' 500,
      run_record ''execution-2'' ''Invoice Sync'' 3000,
      run_record ''execution-1'' ''Invoice Sync'' 2000]"

text \<open>Two definitions with one display name.\<close>

definition invoice_sync_copy :: ProcessInfo where
  "invoice_sync_copy =
     \<lparr>process_id = ''B2'', process_name = ''Invoice Sync'',
      process_type = ''process'', folder_name = ''Archive''\<rparr>"

definition same_name_processes :: "(string, ProcessInfo) dict" where
  "same_name_processes = [(''A1'', invoice_sync), (''B2'', invoice_sync_copy)]"

text \<open>
  A definition whose identifier has the shape of a fallback identifier, and a hash
  function under which an unresolved name falls on it.
\<close>

definition colliding_hash :: "string \<Rightarrow> int" where
  "colliding_hash name = 7"

definition squatter :: ProcessInfo where
  "squatter =
     \<lparr>process_id = ''unknown_process_7'', process_name = ''Nightly Export'',
      process_type = ''process'', folder_name = ''Ops''\<rparr>"

text \<open>
  A hash function with a negative value, and executions in which an unresolved name
  occurs twice.
\<close>

definition negative_hash :: "string \<Rightarrow> int" where
  "negative_hash name = - 1"

definition repeated_executions :: "ExecutionInfo list" where
  "repeated_executions =
     [run_record ''execution-3'' ''Unknown Flow'' 500,
      run_record ''execution-1'' ''Invoice Sync'' 2000,
      run_record ''execution-4'' ''Unknown Flow'' 700]"

text \<open>Two different unresolved names that \<open>colliding_hash\<close> sends to one identifier.\<close>

definition colliding_executions :: "ExecutionInfo list" where
  "colliding_executions =
     [run_record ''execution-5'' ''Flow A'' 100, run_record ''execution-6'' ''Flow B'' 200]"

definition colliding_executions_reordered :: "ExecutionInfo list" where
  "colliding_executions_reordered =
     [run_record ''execution-6'' ''Flow B'' 200, run_record ''execution-5'' ''Flow A'' 100]"

section \<open>The loops of \<open>generate_execution_stats\<close>, bucket by bucket\<close>

lemmas engine_defs =
  generate_execution_stats_def keyed_execution_stats_def merged_buckets_def
  execution_buckets_def execution_step_def definition_step_def update_bucket_def
  create_process_name_to_id_mapping_def resolve_def finalize_def default_bucket_def
  placeholder_def run_record_def Let_def

lemmas scenario_defs =
  scenario_hash_def invoice_sync_def scenario_executions_def invoice_sync_stats_def
  idle_sizes_def

subsection \<open>The first loop\<close>

lemma map_of_execution_step:
  "map_of (execution_step h P n2i e sd) k =
     (if resolve h n2i (e_process_name e) = k
      then Some (update_bucket P k e (case map_of sd k of Some b \<Rightarrow> b | None \<Rightarrow> default_bucket))
      else map_of sd k)"
  by (simp add: execution_step_def Let_def update_conv')

lemma map_of_fold_execution_step:
  "map_of (fold (execution_step h P n2i) E sd) k =
     (let es = filter (\<lambda>e. resolve h n2i (e_process_name e) = k) E in
      if es = [] then map_of sd k
      else Some (fold (update_bucket P k) es
                  (case map_of sd k of Some b \<Rightarrow> b | None \<Rightarrow> default_bucket)))"
proof (induction E arbitrary: sd)
  case Nil
  then show ?case by simp
next
  case (Cons e E)
  show ?case
    by (simp add: Cons.IH map_of_execution_step Let_def)
qed

lemma distinct_execution_step:
  "distinct (map fst sd) \<Longrightarrow> distinct (map fst (execution_step h P n2i e sd))"
  by (simp add: execution_step_def Let_def distinct_update)

lemma distinct_fold_execution_step:
  "distinct (map fst sd) \<Longrightarrow> distinct (map fst (fold (execution_step h P n2i) E sd))"
  by (induction E arbitrary: sd) (simp_all add: distinct_execution_step)

subsection \<open>One bucket under its executions\<close>

lemma count_fold_update_bucket:
  "b_execution_count (fold (update_bucket P k) es b) = b_execution_count b + int (length es)"
  by (induction es arbitrary: b) (simp_all add: update_bucket_def Let_def split: option.splits)

lemma total_fold_update_bucket:
  "total_execution_size (fold (update_bucket P k) es b)
     = total_execution_size b + sum_list (map size_bytes es)"
  by (induction es arbitrary: b) (simp_all add: update_bucket_def Let_def split: option.splits)

lemma max_fold_update_bucket:
  "max_execution_size (fold (update_bucket P k) es b)
     = Max (insert (max_execution_size b) (set (map size_bytes es)))"
proof (induction es arbitrary: b)
  case Nil
  then show ?case by simp
next
  case (Cons e es)
  have "max_execution_size (update_bucket P k e b) = max (max_execution_size b) (size_bytes e)"
    by (simp add: update_bucket_def Let_def split: option.splits)
  moreover have "Max (insert (max (max_execution_size b) (size_bytes e)) (size_bytes ` set es))
      = Max (insert (max_execution_size b) (insert (size_bytes e) (size_bytes ` set es)))"
    by (cases "es = []") (simp_all add: max.assoc max.commute max.left_commute)
  ultimately show ?case using Cons.IH [of "update_bucket P k e b"] by simp
qed

lemma definition_fold_update_bucket:
  "process_definition_size (fold (update_bucket P k) es b) = process_definition_size b"
  by (induction es arbitrary: b) (simp_all add: update_bucket_def Let_def split: option.splits)

lemma info_update_bucket:
  "b_process_info (update_bucket P k e b) =
     (case map_of P k of Some pinfo \<Rightarrow> Some pinfo
      | None \<Rightarrow> (case b_process_info b of None \<Rightarrow> Some (placeholder k (e_process_name e))
                 | Some i \<Rightarrow> Some i))"
  by (simp add: update_bucket_def Let_def split: option.splits)

lemma info_fold_update_bucket:
  "es \<noteq> [] \<Longrightarrow> b_process_info (fold (update_bucket P k) es b) =
     (case map_of P k of Some pinfo \<Rightarrow> Some pinfo
      | None \<Rightarrow> (case b_process_info b of None \<Rightarrow> Some (placeholder k (e_process_name (hd es)))
                 | Some i \<Rightarrow> Some i))"
proof (induction es arbitrary: b)
  case Nil
  then show ?case by simp
next
  case (Cons e es)
  show ?case
  proof (cases "es = []")
    case True
    then show ?thesis by (simp add: info_update_bucket split: option.splits)
  next
    case False
    from Cons.IH [OF False, of "update_bucket P k e b"] show ?thesis
      by (simp add: info_update_bucket split: option.splits)
  qed
qed

subsection \<open>The second loop\<close>

lemma map_of_definition_step:
  "map_of (definition_step P x sd) k =
     (if fst x = k
      then Some ((case map_of sd k of Some b \<Rightarrow> b | None \<Rightarrow> no_execution_bucket P k)
                   \<lparr>process_definition_size := snd x\<rparr>)
      else map_of sd k)"
  by (simp add: definition_step_def Let_def update_conv' no_execution_bucket_def
      split: option.splits)

lemma map_of_fold_definition_step:
  "map_of (fold (definition_step P) S sd) k =
     (case map_of (rev S) k of
        None \<Rightarrow> map_of sd k
      | Some d \<Rightarrow> Some ((case map_of sd k of Some b \<Rightarrow> b | None \<Rightarrow> no_execution_bucket P k)
                         \<lparr>process_definition_size := d\<rparr>))"
proof (induction S arbitrary: sd)
  case Nil
  then show ?case by simp
next
  case (Cons x S)
  show ?case
    by (cases x) (auto simp add: Cons.IH map_of_definition_step map_add_def split: option.splits)
qed

lemma distinct_definition_step:
  "distinct (map fst sd) \<Longrightarrow> distinct (map fst (definition_step P x sd))"
  by (simp add: definition_step_def Let_def distinct_update split: option.splits)

lemma distinct_fold_definition_step:
  "distinct (map fst sd) \<Longrightarrow> distinct (map fst (fold (definition_step P) S sd))"
  by (induction S arbitrary: sd) (simp_all add: distinct_definition_step)

lemma map_of_rev_distinct:
  "distinct (map fst xs) \<Longrightarrow> map_of (rev xs) = map_of xs"
proof (induction xs)
  case Nil
  then show ?case by simp
next
  case (Cons x xs)
  then have "fst x \<notin> dom (map_of (rev xs))"
    by (simp add: dom_map_of_conv_image_fst)
  then have "map_of [x] ++ map_of (rev xs) = (map_of (rev xs))(fst x \<mapsto> snd x)"
    by (cases x) (auto simp add: map_add_def fun_eq_iff split: option.splits)
  with Cons show ?case by (cases x) simp
qed

subsection \<open>The dictionary after both loops, and the result\<close>

lemma distinct_merged_buckets: "distinct (map fst (merged_buckets h P S E))"
  by (simp add: merged_buckets_def execution_buckets_def
      distinct_fold_definition_step distinct_fold_execution_step)

lemma map_of_execution_buckets:
  "map_of (execution_buckets h P E) k =
     (if executions_of h P k E = [] then None else Some (execution_bucket h P k E))"
  by (simp add: execution_buckets_def map_of_fold_execution_step executions_of_def
      execution_bucket_def Let_def)

lemma map_of_merged_buckets:
  "map_of (merged_buckets h P S E) k =
     (if executions_of h P k E = []
      then (case map_of (rev S) k of None \<Rightarrow> None
            | Some d \<Rightarrow> Some ((no_execution_bucket P k)\<lparr>process_definition_size := d\<rparr>))
      else Some (apply_definition S k (execution_bucket h P k E)))"
  by (simp add: merged_buckets_def map_of_fold_definition_step map_of_execution_buckets
      apply_definition_def split: option.splits)

lemma count_execution_bucket:
  "b_execution_count (execution_bucket h P k E) = int (length (executions_of h P k E))"
  by (simp add: execution_bucket_def count_fold_update_bucket default_bucket_def)

lemma count_apply_definition:
  "b_execution_count (apply_definition S k b) = b_execution_count b"
  by (simp add: apply_definition_def split: option.splits)

text \<open>
  The result, element by element: the identifier \<open>k\<close> is reported exactly when some
  execution resolves to it, and then with the bucket of those executions.
\<close>

lemma keyed_execution_stats_iff:
  "(k, s) \<in> set (keyed_execution_stats h P S E) \<longleftrightarrow>
     executions_of h P k E \<noteq> [] \<and>
     s = finalize (apply_definition S k (execution_bucket h P k E))"
proof -
  have "(k, s) \<in> set (keyed_execution_stats h P S E) \<longleftrightarrow>
      (\<exists>b. map_of (merged_buckets h P S E) k = Some b \<and> b_execution_count b \<noteq> 0 \<and> s = finalize b)"
    using distinct_merged_buckets [of h P S E]
    by (auto simp add: keyed_execution_stats_def image_iff)
  also have "\<dots> \<longleftrightarrow> executions_of h P k E \<noteq> [] \<and>
      s = finalize (apply_definition S k (execution_bucket h P k E))"
    by (auto simp add: map_of_merged_buckets count_execution_bucket count_apply_definition
        no_execution_bucket_def split: option.splits)
  finally show ?thesis .
qed

lemma distinct_keyed_execution_stats:
  "distinct (map fst (keyed_execution_stats h P S E))"
proof -
  have "map fst (keyed_execution_stats h P S E)
      = map fst (filter (\<lambda>(pid, stats). b_execution_count stats \<noteq> 0) (merged_buckets h P S E))"
    by (simp add: keyed_execution_stats_def case_prod_unfold comp_def)
  then show ?thesis
    using distinct_merged_buckets [of h P S E] by (simp add: distinct_map_filter)
qed

lemma finalize_apply_definition:
  "finalize (apply_definition S k (execution_bucket h P k E)) =
     \<lparr>process_info = b_process_info (execution_bucket h P k E),
      execution_count = int (length (executions_of h P k E)),
      total_size_bytes = sum_list (map size_bytes (executions_of h P k E))
        + (case map_of (rev S) k of Some d \<Rightarrow> d | None \<Rightarrow> 0),
      max_size_bytes = max (Max (insert 0 (set (map size_bytes (executions_of h P k E)))))
        (case map_of (rev S) k of Some d \<Rightarrow> d | None \<Rightarrow> 0)\<rparr>"
  by (simp add: finalize_def apply_definition_def execution_bucket_def count_fold_update_bucket
      total_fold_update_bucket max_fold_update_bucket definition_fold_update_bucket
      default_bucket_def split: option.splits)

lemma info_execution_bucket:
  "executions_of h P k E \<noteq> [] \<Longrightarrow> b_process_info (execution_bucket h P k E) =
     Some (case map_of P k of Some pinfo \<Rightarrow> pinfo
           | None \<Rightarrow> placeholder k (e_process_name (hd (executions_of h P k E))))"
  by (simp add: execution_bucket_def info_fold_update_bucket default_bucket_def
      split: option.splits)

lemma keyed_execution_stats_keys:
  "fst ` set (keyed_execution_stats h P S E) =
     (\<lambda>e. resolve h (create_process_name_to_id_mapping P) (e_process_name e)) ` set E"
proof -
  have "\<And>k. executions_of h P k E \<noteq> [] \<longleftrightarrow>
      k \<in> (\<lambda>e. resolve h (create_process_name_to_id_mapping P) (e_process_name e)) ` set E"
    by (auto simp add: executions_of_def filter_empty_conv)
  then show ?thesis
    by (auto simp add: keyed_execution_stats_iff image_iff Bex_def)
qed

text \<open>No element of a result carries \<open>None\<close> as its \<open>process_info\<close>.\<close>

lemma keyed_process_info_set:
  "(k, s) \<in> set (keyed_execution_stats h P S E) \<Longrightarrow> process_info s \<noteq> None"
  by (simp add: keyed_execution_stats_iff finalize_apply_definition info_execution_bucket)

lemma Max_insert_zero_nonneg:
  assumes "finite A" "A \<noteq> {}" "\<forall>a\<in>A. (0::int) \<le> a"
  shows "Max (insert 0 A) = Max A"
proof -
  from assms obtain a where "a \<in> A" "0 \<le> a" by blast
  with assms(1) have "0 \<le> Max A" by (meson Max_ge order_trans)
  with assms show ?thesis by (simp add: max_def)
qed

lemma fallback_id_not_A1: "fallback_id h name \<noteq> ''A1''" "''A1'' \<noteq> fallback_id h name"
  by (simp_all add: fallback_id_def)

subsection \<open>The order of the result\<close>

lemma set_first_occurrences: "set (first_occurrences xs) = set xs"
  by (induction xs) auto

lemma distinct_first_occurrences: "distinct (first_occurrences xs)"
  by (induction xs) (auto simp add: set_first_occurrences)

lemma keys_fold_update:
  assumes step: "\<And>x sd. map fst (f x sd)
      = (if key x \<in> set (map fst sd) then map fst sd else map fst sd @ [key x])"
  shows "map fst (fold f xs sd)
      = map fst sd @ filter (\<lambda>k. k \<notin> set (map fst sd)) (first_occurrences (map key xs))"
proof (induction xs arbitrary: sd)
  case Nil
  show ?case by simp
next
  case (Cons x xs)
  show ?case
  proof (cases "key x \<in> set (map fst sd)")
    case True
    then have "filter (\<lambda>k. k \<notin> set (map fst sd))
          (filter (\<lambda>y. y \<noteq> key x) (first_occurrences (map key xs)))
        = filter (\<lambda>k. k \<notin> set (map fst sd)) (first_occurrences (map key xs))"
      by (auto intro: filter_cong)
    with True show ?thesis by (simp add: Cons.IH step)
  next
    case False
    have "filter (\<lambda>k. k \<notin> set (map fst sd))
          (filter (\<lambda>y. y \<noteq> key x) (first_occurrences (map key xs)))
        = filter (\<lambda>k. k \<noteq> key x \<and> k \<notin> set (map fst sd)) (first_occurrences (map key xs))"
      by (auto intro: filter_cong)
    with False show ?thesis by (simp add: Cons.IH step)
  qed
qed

lemma keys_execution_step:
  "map fst (execution_step h P n2i e sd)
     = (if resolve h n2i (e_process_name e) \<in> set (map fst sd) then map fst sd
        else map fst sd @ [resolve h n2i (e_process_name e)])"
  by (simp add: execution_step_def Let_def update_keys)

lemma keys_definition_step:
  "map fst (definition_step P x sd)
     = (if fst x \<in> set (map fst sd) then map fst sd else map fst sd @ [fst x])"
  by (simp add: definition_step_def Let_def update_keys split: option.splits)

lemma keys_execution_buckets:
  "map fst (execution_buckets h P E) = resolved_ids h P E"
  using keys_fold_update
    [where f = "execution_step h P (create_process_name_to_id_mapping P)"
      and key = "\<lambda>e. resolve h (create_process_name_to_id_mapping P) (e_process_name e)",
      OF keys_execution_step, of E "[]"]
  by (simp add: execution_buckets_def resolved_ids_def)

lemma keys_merged_buckets:
  "map fst (merged_buckets h P S E)
     = resolved_ids h P E
       @ filter (\<lambda>k. k \<notin> set (resolved_ids h P E)) (first_occurrences (map fst S))"
  using keys_fold_update
    [where f = "definition_step P" and key = fst, OF keys_definition_step,
      of S "execution_buckets h P E"]
  by (simp add: merged_buckets_def keys_execution_buckets)

lemma set_resolved_ids:
  "set (resolved_ids h P E)
     = (\<lambda>e. resolve h (create_process_name_to_id_mapping P) (e_process_name e)) ` set E"
  by (simp add: resolved_ids_def set_first_occurrences)

lemma resolved_ids_iff: "k \<in> set (resolved_ids h P E) \<longleftrightarrow> executions_of h P k E \<noteq> []"
  by (auto simp add: set_resolved_ids executions_of_def filter_empty_conv)

lemma keys_keyed_execution_stats:
  "map fst (keyed_execution_stats h P S E) = resolved_ids h P E"
proof -
  let ?m = "merged_buckets h P S E"
  have cnt: "(b_execution_count b \<noteq> 0) = (k \<in> set (resolved_ids h P E))"
    if "(k, b) \<in> set ?m" for k b
  proof -
    from that distinct_merged_buckets [of h P S E] have "map_of ?m k = Some b"
      by simp
    then show ?thesis
      by (auto simp add: map_of_merged_buckets resolved_ids_iff count_execution_bucket
          count_apply_definition no_execution_bucket_def split: if_splits option.splits)
  qed
  have "filter (\<lambda>(pid, stats). b_execution_count stats \<noteq> 0) ?m
      = filter (\<lambda>kb. fst kb \<in> set (resolved_ids h P E)) ?m"
    using cnt by (intro filter_cong refl) force
  then have "map fst (keyed_execution_stats h P S E)
      = filter (\<lambda>k. k \<in> set (resolved_ids h P E)) (map fst ?m)"
    by (simp add: keyed_execution_stats_def case_prod_unfold comp_def filter_map)
  also have "\<dots> = resolved_ids h P E"
    by (simp add: keys_merged_buckets)
  finally show ?thesis .
qed

lemma length_generate_execution_stats:
  "length (generate_execution_stats h P S E) = length (resolved_ids h P E)"
  using keys_keyed_execution_stats [of h P S E, THEN arg_cong, of length]
  by (simp add: generate_execution_stats_def)

lemma nth_generate_execution_stats:
  assumes "i < length (generate_execution_stats h P S E)"
  shows "executions_of h P (resolved_ids h P E ! i) E \<noteq> []"
    and "generate_execution_stats h P S E ! i
      = finalize (apply_definition S (resolved_ids h P E ! i)
          (execution_bucket h P (resolved_ids h P E ! i) E))"
proof -
  from assms have i: "i < length (keyed_execution_stats h P S E)"
    by (simp add: generate_execution_stats_def)
  then have "keyed_execution_stats h P S E ! i \<in> set (keyed_execution_stats h P S E)"
    by simp
  moreover from i have "fst (keyed_execution_stats h P S E ! i) = resolved_ids h P E ! i"
    using keys_keyed_execution_stats [of h P S E] by (metis nth_map)
  moreover from i have "snd (keyed_execution_stats h P S E ! i)
      = generate_execution_stats h P S E ! i"
    by (simp add: generate_execution_stats_def)
  ultimately have "(resolved_ids h P E ! i, generate_execution_stats h P S E ! i)
      \<in> set (keyed_execution_stats h P S E)"
    by (metis prod.collapse)
  then show "executions_of h P (resolved_ids h P E ! i) E \<noteq> []"
    and "generate_execution_stats h P S E ! i
      = finalize (apply_definition S (resolved_ids h P E ! i)
          (execution_bucket h P (resolved_ids h P E ! i) E))"
    by (simp_all add: keyed_execution_stats_iff)
qed

lemma keyed_as_zip:
  "keyed_execution_stats h P S E
     = zip (resolved_ids h P E) (generate_execution_stats h P S E)"
  using keys_keyed_execution_stats [of h P S E]
  by (metis generate_execution_stats_def zip_map_fst_snd)

subsection \<open>The name index\<close>

lemma create_snoc:
  "create_process_name_to_id_mapping (ps @ [(pid, pinfo)])
     = (create_process_name_to_id_mapping ps)(process_name pinfo \<mapsto> pid)"
  by (simp add: create_process_name_to_id_mapping_def)

lemma create_Some_member:
  "create_process_name_to_id_mapping P name = Some pid
     \<Longrightarrow> \<exists>pinfo. (pid, pinfo) \<in> set P \<and> process_name pinfo = name"
proof (induction P rule: rev_induct)
  case Nil
  then show ?case by (simp add: create_process_name_to_id_mapping_def)
next
  case (snoc x ps)
  obtain q qinfo where x: "x = (q, qinfo)" by (cases x)
  show ?case
  proof (cases "process_name qinfo = name")
    case True
    with snoc.prems show ?thesis by (auto simp add: x create_snoc)
  next
    case False
    with snoc.prems have "create_process_name_to_id_mapping ps name = Some pid"
      by (simp add: x create_snoc)
    from snoc.IH [OF this] show ?thesis by auto
  qed
qed

lemma create_last_wins:
  "\<forall>qinfo \<in> snd ` set qs. process_name qinfo \<noteq> process_name pinfo
     \<Longrightarrow> create_process_name_to_id_mapping (ps @ (pid, pinfo) # qs) (process_name pinfo) = Some pid"
proof (induction qs rule: rev_induct)
  case Nil
  show ?case by (simp add: create_snoc)
next
  case (snoc x qs)
  obtain q qinfo where x: "x = (q, qinfo)" by (cases x)
  from snoc.prems have ne: "process_name qinfo \<noteq> process_name pinfo"
    and rest: "\<forall>qinfo \<in> snd ` set qs. process_name qinfo \<noteq> process_name pinfo"
    by (auto simp add: x)
  have "create_process_name_to_id_mapping (ps @ (pid, pinfo) # qs @ [(q, qinfo)])
      = (create_process_name_to_id_mapping (ps @ (pid, pinfo) # qs))(process_name qinfo \<mapsto> q)"
    using create_snoc [of "ps @ (pid, pinfo) # qs" q qinfo] by simp
  with ne snoc.IH [OF rest] show ?case by (simp add: x)
qed

lemma dom_create:
  "dom (create_process_name_to_id_mapping P) = (process_name \<circ> snd) ` set P"
proof (induction P rule: rev_induct)
  case Nil
  show ?case by (simp add: create_process_name_to_id_mapping_def)
next
  case (snoc x ps)
  obtain q qinfo where x: "x = (q, qinfo)" by (cases x)
  have "dom (create_process_name_to_id_mapping (ps @ [(q, qinfo)]))
      = insert (process_name qinfo) (dom (create_process_name_to_id_mapping ps))"
    unfolding create_snoc by simp
  with snoc.IH show ?case by (simp add: x)
qed

subsection \<open>The fallback identifier\<close>

lemma fallback_id_decimal:
  "fallback_id h name = ''unknown_process_'' @ str_nat (nat (h name mod 10000))"
  "nat (h name mod 10000) < 10000"
  by (simp_all add: fallback_id_def str_int_def)

lemma length_filter_mono:
  "(\<And>x. x \<in> set xs \<Longrightarrow> P x \<Longrightarrow> Q x) \<Longrightarrow> length (filter P xs) \<le> length (filter Q xs)"
  by (induction xs) auto

subsection \<open>Permuting the executions\<close>

lemma executions_of_mset:
  assumes "mset E = mset E'"
  shows "mset (executions_of h P k E) = mset (executions_of h P k E')"
  using assms by (simp add: executions_of_def mset_filter)

lemma summary_permutation:
  assumes "mset E = mset E'"
  shows "stats_summary (k, finalize (apply_definition S k (execution_bucket h P k E)))
       = stats_summary (k, finalize (apply_definition S k (execution_bucket h P k E')))"
proof -
  let ?es = "executions_of h P k E" and ?es' = "executions_of h P k E'"
  from assms have m: "mset ?es = mset ?es'"
    by (rule executions_of_mset)
  then have "length ?es = length ?es'"
    by (rule mset_eq_length)
  moreover from m have "mset (map size_bytes ?es) = mset (map size_bytes ?es')"
    by simp
  then have "sum_list (map size_bytes ?es) = sum_list (map size_bytes ?es')"
    by (metis sum_mset_sum_list)
  moreover from m have "set ?es = set ?es'"
    by (rule mset_eq_setD)
  ultimately show ?thesis
    by (simp add: stats_summary_def finalize_apply_definition)
qed

lemma summaries_permutation:
  assumes "mset E = mset E'"
  shows "set (map stats_summary (keyed_execution_stats h P S E))
       = set (map stats_summary (keyed_execution_stats h P S E'))"
proof -
  have sub: "set (map stats_summary (keyed_execution_stats h P S A))
       \<subseteq> set (map stats_summary (keyed_execution_stats h P S B))"
    if AB: "mset A = mset B" for A B
  proof
    fix x assume "x \<in> set (map stats_summary (keyed_execution_stats h P S A))"
    then obtain k s where ks: "(k, s) \<in> set (keyed_execution_stats h P S A)"
      and x: "x = stats_summary (k, s)"
      by auto
    from ks have ne: "executions_of h P k A \<noteq> []"
      and s: "s = finalize (apply_definition S k (execution_bucket h P k A))"
      by (simp_all add: keyed_execution_stats_iff)
    from executions_of_mset [OF AB, of h P k] ne have "executions_of h P k B \<noteq> []"
      by auto
    then have "(k, finalize (apply_definition S k (execution_bucket h P k B)))
        \<in> set (keyed_execution_stats h P S B)"
      by (simp add: keyed_execution_stats_iff)
    moreover have "x = stats_summary (k, finalize (apply_definition S k (execution_bucket h P k B)))"
      unfolding x s by (rule summary_permutation [OF AB])
    ultimately show "x \<in> set (map stats_summary (keyed_execution_stats h P S B))"
      by (auto simp add: image_iff intro!: bexI)
  qed
  from sub [OF assms] sub [OF assms [symmetric]] show ?thesis by blast
qed

lemma distinct_summaries:
  "distinct (map stats_summary (keyed_execution_stats h P S E))"
proof -
  have "fst \<circ> stats_summary = fst"
    by (simp add: fun_eq_iff stats_summary_def)
  then have "map fst (map stats_summary (keyed_execution_stats h P S E))
      = map fst (keyed_execution_stats h P S E)"
    by (simp only: map_map)
  with distinct_keyed_execution_stats [of h P S E]
  have "distinct (map fst (map stats_summary (keyed_execution_stats h P S E)))"
    by (simp only:)
  then show ?thesis
    using distinct_map [of fst "map stats_summary (keyed_execution_stats h P S E)"] by blast
qed

lemma hd_executions_of:
  assumes "executions_of h P k E \<noteq> []"
  shows "hd (executions_of h P k E) \<in> set E"
    and "resolve h (create_process_name_to_id_mapping P)
      (e_process_name (hd (executions_of h P k E))) = k"
proof -
  from assms have "hd (executions_of h P k E) \<in> set (executions_of h P k E)"
    by (rule hd_in_set)
  then show "hd (executions_of h P k E) \<in> set E"
    and "resolve h (create_process_name_to_id_mapping P)
      (e_process_name (hd (executions_of h P k E))) = k"
    by (simp_all add: executions_of_def)
qed

lemma bucket_permutation:
  assumes perm: "mset E = mset E'"
    and ne: "executions_of h P k E \<noteq> []"
    and one: "one_name_per_placeholder h P E"
  shows "finalize (apply_definition S k (execution_bucket h P k E))
       = finalize (apply_definition S k (execution_bucket h P k E'))"
proof -
  from executions_of_mset [OF perm, of h P k] ne have ne': "executions_of h P k E' \<noteq> []"
    by auto
  from perm have sets: "set E' = set E"
    by (metis mset_eq_setD)
  have "stats_summary (k, finalize (apply_definition S k (execution_bucket h P k E)))
      = stats_summary (k, finalize (apply_definition S k (execution_bucket h P k E')))"
    by (rule summary_permutation [OF perm])
  then have counts: "execution_count (finalize (apply_definition S k (execution_bucket h P k E)))
        = execution_count (finalize (apply_definition S k (execution_bucket h P k E')))"
      "total_size_bytes (finalize (apply_definition S k (execution_bucket h P k E)))
        = total_size_bytes (finalize (apply_definition S k (execution_bucket h P k E')))"
      "max_size_bytes (finalize (apply_definition S k (execution_bucket h P k E)))
        = max_size_bytes (finalize (apply_definition S k (execution_bucket h P k E')))"
    by (simp_all add: stats_summary_def)
  have info: "b_process_info (execution_bucket h P k E)
      = b_process_info (execution_bucket h P k E')"
  proof (cases "map_of P k")
    case (Some pinfo)
    with ne ne' show ?thesis by (simp add: info_execution_bucket)
  next
    case None
    then have free: "k \<notin> fst ` set P"
      by (simp add: map_of_eq_None_iff)
    from hd_executions_of [OF ne] hd_executions_of [OF ne'] sets one free
    have "e_process_name (hd (executions_of h P k E))
        = e_process_name (hd (executions_of h P k E'))"
      unfolding one_name_per_placeholder_def by metis
    with None ne ne' show ?thesis by (simp add: info_execution_bucket)
  qed
  have "process_info (finalize (apply_definition S k (execution_bucket h P k E)))
      = process_info (finalize (apply_definition S k (execution_bucket h P k E')))"
    using info by (simp add: finalize_apply_definition)
  with counts show ?thesis
    by (intro ExecutionStats.equality) simp_all
qed

lemma keyed_permutation:
  assumes perm: "mset E = mset E'"
    and one: "one_name_per_placeholder h P E"
  shows "mset (keyed_execution_stats h P S E) = mset (keyed_execution_stats h P S E')"
proof -
  from perm have sets: "set E' = set E"
    by (metis mset_eq_setD)
  with one have one': "one_name_per_placeholder h P E'"
    by (simp add: one_name_per_placeholder_def)
  have sub: "set (keyed_execution_stats h P S A) \<subseteq> set (keyed_execution_stats h P S B)"
    if AB: "mset A = mset B" and oneA: "one_name_per_placeholder h P A" for A B
  proof
    fix x assume x: "x \<in> set (keyed_execution_stats h P S A)"
    obtain k s where ks: "x = (k, s)" by (cases x)
    with x have ne: "executions_of h P k A \<noteq> []"
      and s: "s = finalize (apply_definition S k (execution_bucket h P k A))"
      by (simp_all add: keyed_execution_stats_iff)
    from executions_of_mset [OF AB, of h P k] ne have "executions_of h P k B \<noteq> []"
      by auto
    moreover from bucket_permutation [OF AB ne oneA]
    have "s = finalize (apply_definition S k (execution_bucket h P k B))"
      by (simp add: s)
    ultimately show "x \<in> set (keyed_execution_stats h P S B)"
      by (simp add: ks keyed_execution_stats_iff)
  qed
  from sub [OF perm one] sub [OF perm [symmetric] one']
  have "set (keyed_execution_stats h P S E) = set (keyed_execution_stats h P S E')"
    by blast
  moreover have "distinct (keyed_execution_stats h P S A)" for A
    using distinct_keyed_execution_stats [of h P S A]
      distinct_map [of fst "keyed_execution_stats h P S A"] by blast
  ultimately show ?thesis
    by (simp only: set_eq_iff_mset_eq_distinct)
qed

lemma summaries_as_zip:
  "zip (resolved_ids h P E) (map counters (generate_execution_stats h P S E))
     = map stats_summary (keyed_execution_stats h P S E)"
  by (simp add: keyed_as_zip zip_map2 stats_summary_def counters_def case_prod_unfold)

subsection \<open>The directory walk\<close>

lemmas scan_defs =
  get_file_size_recursive_def path_exists_def path_is_file_def path_st_size_def

lemma walk_no_raise:
  "\<forall>x. Raises x \<notin> set items \<Longrightarrow> walk items acc = (acc + regular_sizes items, None)"
  by (induction items acc rule: walk.induct) auto

lemma walk_first_raise:
  "\<forall>x. Raises x \<notin> set before
     \<Longrightarrow> walk (before @ Raises e # rest) acc = (acc + regular_sizes before, Some e)"
  by (induction before acc rule: walk.induct) auto

lemma walk_raises_member:
  "walk items acc = (n, Some e) \<Longrightarrow> Raises e \<in> set items"
  by (induction items acc rule: walk.induct) simp_all

subsection \<open>The rows of the report\<close>

text \<open>
  Every row has as many cells as the header, its tenth cell is the integer 0 and its
  eleventh is \<open>total_size_mb\<close>.
\<close>

lemma csv_row_columns:
  assumes "process_info stats = Some pinfo"
  shows "\<exists>row. csv_row stats = Inr row \<and> length row = length csv_header
    \<and> row ! 9 = Whole 0 \<and> row ! 10 = Decimal (total_size_mb stats)"
  using assms
  by (simp add: csv_row_def process_definition_size_mb_def avg_size_mb_def truediv_def
      csv_header_def)

section \<open>The properties of the reconciliation engine\<close>

text \<open>
  C1.  Whatever the definitions, the definition sizes and the executions are, every
  \<open>ExecutionStats\<close> that \<open>generate_execution_stats\<close> returns has an
  \<open>execution_count\<close> of at least 1; an identifier of the definition-size mapping to
  which no execution resolves has no element in the result; and the result has exactly
  one element for each identifier some execution resolves to.
\<close>

theorem generate_execution_stats_count_positive:
  "(\<forall>s \<in> set (generate_execution_stats h P S E). 1 \<le> execution_count s) \<and>
   (\<forall>pid. pid \<in> fst ` set S \<and> executions_of h P pid E = []
      \<longrightarrow> pid \<notin> fst ` set (keyed_execution_stats h P S E)) \<and>
   length (generate_execution_stats h P S E)
     = card ((\<lambda>e. resolve h (create_process_name_to_id_mapping P) (e_process_name e)) ` set E)"
proof (intro conjI ballI allI impI)
  fix s assume "s \<in> set (generate_execution_stats h P S E)"
  then obtain k where ks: "(k, s) \<in> set (keyed_execution_stats h P S E)"
    by (auto simp add: generate_execution_stats_def)
  then have "executions_of h P k E \<noteq> []"
    and "execution_count s = int (length (executions_of h P k E))"
    by (simp_all add: keyed_execution_stats_iff finalize_apply_definition)
  then show "1 \<le> execution_count s"
    by (cases "executions_of h P k E") simp_all
next
  fix pid assume "pid \<in> fst ` set S \<and> executions_of h P pid E = []"
  then show "pid \<notin> fst ` set (keyed_execution_stats h P S E)"
    by (auto simp add: keyed_execution_stats_iff)
next
  have "length (generate_execution_stats h P S E)
      = length (map fst (keyed_execution_stats h P S E))"
    by (simp add: generate_execution_stats_def)
  also have "\<dots> = card (set (map fst (keyed_execution_stats h P S E)))"
    using distinct_keyed_execution_stats [of h P S E] by (simp only: distinct_card)
  finally show "length (generate_execution_stats h P S E)
     = card ((\<lambda>e. resolve h (create_process_name_to_id_mapping P) (e_process_name e)) ` set E)"
    by (simp add: keyed_execution_stats_keys)
qed

theorem generate_execution_stats_count_positive_witness:
  "generate_execution_stats scenario_hash [(''A1'', invoice_sync)] idle_sizes
      scenario_executions \<noteq> []
   \<and> 1 \<le> execution_count
        (hd (generate_execution_stats scenario_hash [(''A1'', invoice_sync)] idle_sizes
               scenario_executions))
   \<and> ''B2'' \<in> fst ` set idle_sizes
   \<and> executions_of scenario_hash [(''A1'', invoice_sync)] ''B2'' scenario_executions = []
   \<and> ''B2'' \<notin> fst ` set (keyed_execution_stats scenario_hash [(''A1'', invoice_sync)]
        idle_sizes scenario_executions)
   \<and> length (generate_execution_stats scenario_hash [(''A1'', invoice_sync)] idle_sizes
        scenario_executions) = 2"
proof -
  have a: "generate_execution_stats scenario_hash [(''A1'', invoice_sync)] idle_sizes
      scenario_executions \<noteq> []"
    by (simp add: engine_defs scenario_defs)
  have b: "''B2'' \<in> fst ` set idle_sizes"
    by (simp add: idle_sizes_def)
  have c: "executions_of scenario_hash [(''A1'', invoice_sync)] ''B2'' scenario_executions = []"
    by (simp add: executions_of_def engine_defs scenario_defs fallback_id_def)
  have d: "length (generate_execution_stats scenario_hash [(''A1'', invoice_sync)] idle_sizes
        scenario_executions) = 2"
    by (simp add: engine_defs scenario_defs fallback_id_def)
  from a have e: "hd (generate_execution_stats scenario_hash [(''A1'', invoice_sync)] idle_sizes
        scenario_executions)
      \<in> set (generate_execution_stats scenario_hash [(''A1'', invoice_sync)] idle_sizes
        scenario_executions)"
    by (rule hd_in_set)
  from generate_execution_stats_count_positive
    [of scenario_hash "[(''A1'', invoice_sync)]" idle_sizes scenario_executions] a b c d e
  show ?thesis by blast
qed


text \<open>
  C2.  The list \<open>generate_execution_stats\<close> returns has one element for each
  identifier some execution resolves to, in the order in which the identifiers first
  occur, so no identifier has two elements and the executions resolving to one identifier
  share one element.  For the element at every position, with \<open>pid\<close> the identifier
  at that position: some execution resolves to \<open>pid\<close>; the \<open>execution_count\<close> is the
  number of the executions resolving to \<open>pid\<close>; the \<open>total_size_bytes\<close> is the sum
  of their sizes plus the definition size of \<open>pid\<close> counted once; and the
  \<open>max_size_bytes\<close> is the larger of the running maximum and the definition size.  The
  running maximum starts at 0; when no execution of the bucket has a negative size, as
  for the byte counts the loaders produce, it is the largest single execution size.
\<close>

theorem generate_execution_stats_merges_bucket:
  assumes "well_formed_dict S"
  shows "length (generate_execution_stats h P S E) = length (resolved_ids h P E)
    \<and> distinct (resolved_ids h P E)
    \<and> (\<forall>e \<in> set E. \<exists>i < length (generate_execution_stats h P S E).
          resolved_ids h P E ! i
            = resolve h (create_process_name_to_id_mapping P) (e_process_name e)
          \<and> e \<in> set (executions_of h P (resolved_ids h P E ! i) E))
    \<and> (\<forall>i < length (generate_execution_stats h P S E).
          executions_of h P (resolved_ids h P E ! i) E \<noteq> []
        \<and> execution_count (generate_execution_stats h P S E ! i)
            = int (length (executions_of h P (resolved_ids h P E ! i) E))
        \<and> total_size_bytes (generate_execution_stats h P S E ! i)
            = sum_list (map size_bytes (executions_of h P (resolved_ids h P E ! i) E))
              + definition_size S (resolved_ids h P E ! i)
        \<and> max_size_bytes (generate_execution_stats h P S E ! i)
            = max (Max (insert 0
                (set (map size_bytes (executions_of h P (resolved_ids h P E ! i) E)))))
                (definition_size S (resolved_ids h P E ! i))
        \<and> ((\<forall>x \<in> set (executions_of h P (resolved_ids h P E ! i) E). 0 \<le> size_bytes x) \<longrightarrow>
             max_size_bytes (generate_execution_stats h P S E ! i)
               = max (Max (set (map size_bytes
                   (executions_of h P (resolved_ids h P E ! i) E))))
                   (definition_size S (resolved_ids h P E ! i))))"
proof -
  let ?gen = "generate_execution_stats h P S E" and ?ids = "resolved_ids h P E"
  from assms have rev: "map_of (rev S) = map_of S"
    by (simp add: well_formed_dict_def map_of_rev_distinct)
  have len: "length ?gen = length ?ids"
    by (rule length_generate_execution_stats)
  have dist: "distinct ?ids"
    by (simp add: resolved_ids_def distinct_first_occurrences)
  have each: "\<exists>i < length ?gen.
      ?ids ! i = resolve h (create_process_name_to_id_mapping P) (e_process_name e)
      \<and> e \<in> set (executions_of h P (?ids ! i) E)"
    if "e \<in> set E" for e
  proof -
    from that have "resolve h (create_process_name_to_id_mapping P) (e_process_name e) \<in> set ?ids"
      by (simp add: set_resolved_ids)
    then obtain i where "i < length ?ids"
      and "?ids ! i = resolve h (create_process_name_to_id_mapping P) (e_process_name e)"
      by (auto simp add: in_set_conv_nth)
    with that len show ?thesis
      by (auto simp add: executions_of_def)
  qed
  have bucket: "executions_of h P (?ids ! i) E \<noteq> []
        \<and> execution_count (?gen ! i) = int (length (executions_of h P (?ids ! i) E))
        \<and> total_size_bytes (?gen ! i)
            = sum_list (map size_bytes (executions_of h P (?ids ! i) E))
              + definition_size S (?ids ! i)
        \<and> max_size_bytes (?gen ! i)
            = max (Max (insert 0 (set (map size_bytes (executions_of h P (?ids ! i) E)))))
                (definition_size S (?ids ! i))
        \<and> ((\<forall>x \<in> set (executions_of h P (?ids ! i) E). 0 \<le> size_bytes x) \<longrightarrow>
             max_size_bytes (?gen ! i)
               = max (Max (set (map size_bytes (executions_of h P (?ids ! i) E))))
                   (definition_size S (?ids ! i)))"
    if "i < length ?gen" for i
  proof -
    let ?es = "executions_of h P (?ids ! i) E"
    from that have ne: "?es \<noteq> []"
      and s: "?gen ! i = finalize (apply_definition S (?ids ! i)
          (execution_bucket h P (?ids ! i) E))"
      by (rule nth_generate_execution_stats)+
    have mx: "max_size_bytes (?gen ! i)
        = max (Max (insert 0 (set (map size_bytes ?es)))) (definition_size S (?ids ! i))"
      by (simp add: s finalize_apply_definition rev definition_size_def)
    have "max_size_bytes (?gen ! i)
        = max (Max (set (map size_bytes ?es))) (definition_size S (?ids ! i))"
      if "\<forall>x \<in> set ?es. 0 \<le> size_bytes x"
    proof -
      from ne that have "Max (insert 0 (set (map size_bytes ?es))) = Max (set (map size_bytes ?es))"
        by (intro Max_insert_zero_nonneg) auto
      with mx show ?thesis by simp
    qed
    with mx ne show ?thesis
      by (simp add: s finalize_apply_definition rev definition_size_def)
  qed
  from len dist each bucket show ?thesis by blast
qed

theorem generate_execution_stats_merges_bucket_witness:
  "well_formed_dict [(''A1'', 1000::int)]
   \<and> generate_execution_stats scenario_hash [(''A1'', invoice_sync)] [(''A1'', 1000)]
        scenario_executions
      = [invoice_sync_stats,
         \<lparr>process_info = Some (placeholder ''unknown_process_4242'' ''Unknown Flow''),
          execution_count = 1, total_size_bytes = 500, max_size_bytes = 500\<rparr>]
   \<and> resolved_ids scenario_hash [(''A1'', invoice_sync)] scenario_executions
      = [''A1'', ''unknown_process_4242'']
   \<and> executions_of scenario_hash [(''A1'', invoice_sync)] ''A1'' scenario_executions
        = [run_record ''execution-1'' ''Invoice Sync'' 2000,
           run_record ''execution-2'' ''Invoice Sync'' 3000]
   \<and> definition_size [(''A1'', 1000)] ''A1'' = 1000
   \<and> execution_count (generate_execution_stats scenario_hash [(''A1'', invoice_sync)]
        [(''A1'', 1000)] scenario_executions ! 0) = 2
   \<and> total_size_bytes (generate_execution_stats scenario_hash [(''A1'', invoice_sync)]
        [(''A1'', 1000)] scenario_executions ! 0) = 2000 + 3000 + 1000
   \<and> max_size_bytes (generate_execution_stats scenario_hash [(''A1'', invoice_sync)]
        [(''A1'', 1000)] scenario_executions ! 0) = max (Max {2000, 3000}) 1000"
proof -
  let ?P = "[(''A1'', invoice_sync)]" and ?S = "[(''A1'', 1000::int)]"
  let ?gen = "generate_execution_stats scenario_hash ?P ?S scenario_executions"
  have w: "well_formed_dict ?S"
    by (simp add: well_formed_dict_def)
  have f: "fallback_id scenario_hash ''Unknown Flow'' = ''unknown_process_4242''"
    by (simp add: fallback_id_def scenario_hash_def str_int_def str_nat.simps digit_char_def)
  have g: "?gen = [invoice_sync_stats,
         \<lparr>process_info = Some (placeholder ''unknown_process_4242'' ''Unknown Flow''),
          execution_count = 1, total_size_bytes = 500, max_size_bytes = 500\<rparr>]"
    by (simp add: engine_defs scenario_defs f)
  have ids: "resolved_ids scenario_hash ?P scenario_executions
      = [''A1'', ''unknown_process_4242'']"
    by (simp add: resolved_ids_def engine_defs scenario_defs f)
  have es: "executions_of scenario_hash ?P ''A1'' scenario_executions
      = [run_record ''execution-1'' ''Invoice Sync'' 2000,
         run_record ''execution-2'' ''Invoice Sync'' 3000]"
    by (simp add: executions_of_def engine_defs scenario_defs f)
  have d: "definition_size ?S ''A1'' = 1000"
    by (simp add: definition_size_def)
  have i: "0 < length ?gen"
    by (simp add: g)
  have id0: "resolved_ids scenario_hash ?P scenario_executions ! 0 = ''A1''"
    by (simp add: ids)
  have nn: "\<forall>x \<in> set (executions_of scenario_hash ?P
      (resolved_ids scenario_hash ?P scenario_executions ! 0) scenario_executions).
        0 \<le> size_bytes x"
    by (simp add: id0 es run_record_def)
  from generate_execution_stats_merges_bucket [OF w, of scenario_hash ?P scenario_executions] i nn
  have "execution_count (?gen ! 0) = int (length (executions_of scenario_hash ?P
          (resolved_ids scenario_hash ?P scenario_executions ! 0) scenario_executions))"
    and "total_size_bytes (?gen ! 0)
        = sum_list (map size_bytes (executions_of scenario_hash ?P
            (resolved_ids scenario_hash ?P scenario_executions ! 0) scenario_executions))
          + definition_size ?S (resolved_ids scenario_hash ?P scenario_executions ! 0)"
    and "max_size_bytes (?gen ! 0)
        = max (Max (set (map size_bytes (executions_of scenario_hash ?P
            (resolved_ids scenario_hash ?P scenario_executions ! 0) scenario_executions))))
            (definition_size ?S (resolved_ids scenario_hash ?P scenario_executions ! 0))"
    by blast+
  then have "execution_count (?gen ! 0) = 2"
    and "total_size_bytes (?gen ! 0) = 2000 + 3000 + 1000"
    and "max_size_bytes (?gen ! 0) = max (Max {2000, 3000}) 1000"
    by (simp_all add: id0 es d run_record_def)
  with w g ids es d show ?thesis by (simp only: simp_thms)
qed

text \<open>
  C3 as it is stated does not hold for every input.  The fallback identifier of an
  unresolved name can itself be a key of \<open>processes\<close>; the test
  \<open>process_id in processes\<close> then attaches that definition, whose type need not be
  \<open>unknown\<close>.  Here the one execution has a name absent from the index, and the
  element returned for it has type \<open>process\<close>.
\<close>

theorem unresolved_name_real_type_counterexample:
  "create_process_name_to_id_mapping [(''unknown_process_7'', squatter)] ''Unknown Flow'' = None
   \<and> generate_execution_stats colliding_hash [(''unknown_process_7'', squatter)] []
        [run_record ''execution-3'' ''Unknown Flow'' 500]
     = [\<lparr>process_info = Some \<lparr>process_id = ''unknown_process_7'',
           process_name = ''Nightly Export'', process_type = ''process'',
           folder_name = ''Ops''\<rparr>,
         execution_count = 1, total_size_bytes = 500, max_size_bytes = 500\<rparr>]"
proof -
  have f: "fallback_id colliding_hash ''Unknown Flow'' = ''unknown_process_7''"
    by (simp add: fallback_id_def colliding_hash_def str_int_def str_nat.simps digit_char_def)
  show ?thesis
    by (simp add: engine_defs squatter_def f)
qed

text \<open>
  C3, amended.  Let an execution of the list have a display name absent from the index.
  Its identifier is the fallback identifier: \<open>unknown_process_\<close> followed by the
  decimal text of \<open>hash(name) mod 10000\<close>, a number from 0 to 9999 that depends on
  the hash function and the name and on nothing else.  The returned list has exactly
  one element at that identifier; every execution of the same name is counted in it, so
  its \<open>execution_count\<close> is at least the number of occurrences of the name; and a
  second run with the same hash function, on any definitions that do not index the name
  and any executions in which it occurs, returns an element at the same identifier.  If
  moreover the fallback identifier is not a key of \<open>processes\<close>, the \<open>process_info\<close>
  of the element is a placeholder carrying the fallback identifier, the display name of
  the first execution of the bucket and the type \<open>unknown\<close>.
\<close>

theorem unresolved_name_bucket:
  assumes "e \<in> set E"
    and "create_process_name_to_id_mapping P (e_process_name e) = None"
  shows "resolve h (create_process_name_to_id_mapping P) (e_process_name e)
           = fallback_id h (e_process_name e)
     \<and> fallback_id h (e_process_name e)
           = ''unknown_process_'' @ str_nat (nat (h (e_process_name e) mod 10000))
     \<and> nat (h (e_process_name e) mod 10000) < 10000
     \<and> (\<exists>i < length (generate_execution_stats h P S E).
           resolved_ids h P E ! i = fallback_id h (e_process_name e)
         \<and> (\<forall>j < length (generate_execution_stats h P S E).
               resolved_ids h P E ! j = fallback_id h (e_process_name e) \<longrightarrow> j = i)
         \<and> (\<forall>x \<in> set E. e_process_name x = e_process_name e \<longrightarrow>
               x \<in> set (executions_of h P (fallback_id h (e_process_name e)) E))
         \<and> execution_count (generate_execution_stats h P S E ! i)
             = int (length (executions_of h P (fallback_id h (e_process_name e)) E))
         \<and> int (length (filter (\<lambda>x. e_process_name x = e_process_name e) E))
             \<le> execution_count (generate_execution_stats h P S E ! i)
         \<and> (fallback_id h (e_process_name e) \<notin> fst ` set P \<longrightarrow>
              process_info (generate_execution_stats h P S E ! i)
                = Some \<lparr>process_id = fallback_id h (e_process_name e),
                        process_name = e_process_name
                          (hd (executions_of h P (fallback_id h (e_process_name e)) E)),
                        process_type = ''unknown'', folder_name = ''''\<rparr>))
     \<and> (\<forall>P' S' E'.
           create_process_name_to_id_mapping P' (e_process_name e) = None
           \<and> (\<exists>x \<in> set E'. e_process_name x = e_process_name e) \<longrightarrow>
           (\<exists>j < length (generate_execution_stats h P' S' E').
              resolved_ids h P' E' ! j = fallback_id h (e_process_name e)))"
proof -
  let ?k = "fallback_id h (e_process_name e)"
  have found: "\<exists>j < length (generate_execution_stats h Q T F). resolved_ids h Q F ! j = ?k"
    if "create_process_name_to_id_mapping Q (e_process_name e) = None"
      and "\<exists>x \<in> set F. e_process_name x = e_process_name e" for Q T F
  proof -
    from that obtain x where "x \<in> set F"
      and "resolve h (create_process_name_to_id_mapping Q) (e_process_name x) = ?k"
      by (auto simp add: resolve_def)
    then have "?k \<in> set (resolved_ids h Q F)"
      by (force simp add: set_resolved_ids)
    then show ?thesis
      by (simp add: in_set_conv_nth length_generate_execution_stats)
  qed
  from assms(2) have r: "resolve h (create_process_name_to_id_mapping P) (e_process_name e) = ?k"
    by (simp add: resolve_def)
  have same: "\<forall>x \<in> set E. e_process_name x = e_process_name e \<longrightarrow>
      x \<in> set (executions_of h P ?k E)"
    using r by (simp add: executions_of_def)
  from found [where Q = P and T = S and F = E] assms obtain i
    where i: "i < length (generate_execution_stats h P S E)"
      and ki: "resolved_ids h P E ! i = ?k"
    by blast
  have dist: "distinct (resolved_ids h P E)"
    by (simp add: resolved_ids_def distinct_first_occurrences)
  have uniq: "\<forall>j < length (generate_execution_stats h P S E).
      resolved_ids h P E ! j = ?k \<longrightarrow> j = i"
  proof (intro allI impI)
    fix j
    assume j: "j < length (generate_execution_stats h P S E)"
      and "resolved_ids h P E ! j = ?k"
    with ki have eq: "resolved_ids h P E ! j = resolved_ids h P E ! i"
      by (simp only:)
    from i j have "j < length (resolved_ids h P E)" and "i < length (resolved_ids h P E)"
      by (simp_all only: length_generate_execution_stats)
    from nth_eq_iff_index_eq [OF dist this] eq show "j = i"
      by blast
  qed
  from nth_generate_execution_stats [OF i] ki
  have ne: "executions_of h P ?k E \<noteq> []"
    and s: "generate_execution_stats h P S E ! i
      = finalize (apply_definition S ?k (execution_bucket h P ?k E))"
    by simp_all
  have cnt: "execution_count (generate_execution_stats h P S E ! i)
      = int (length (executions_of h P ?k E))"
    by (simp add: s finalize_apply_definition)
  have "length (filter (\<lambda>x. e_process_name x = e_process_name e) E)
      \<le> length (executions_of h P ?k E)"
    unfolding executions_of_def using r by (intro length_filter_mono) simp
  with cnt have le: "int (length (filter (\<lambda>x. e_process_name x = e_process_name e) E))
      \<le> execution_count (generate_execution_stats h P S E ! i)"
    by simp
  have info: "process_info (generate_execution_stats h P S E ! i)
      = Some \<lparr>process_id = ?k,
              process_name = e_process_name (hd (executions_of h P ?k E)),
              process_type = ''unknown'', folder_name = ''''\<rparr>"
    if "?k \<notin> fst ` set P"
  proof -
    from that have "map_of P ?k = None"
      by (simp add: map_of_eq_None_iff)
    with ne show ?thesis
      by (simp add: s finalize_apply_definition info_execution_bucket placeholder_def)
  qed
  from i ki uniq same cnt le info
  have "\<exists>i < length (generate_execution_stats h P S E).
           resolved_ids h P E ! i = ?k
         \<and> (\<forall>j < length (generate_execution_stats h P S E).
               resolved_ids h P E ! j = ?k \<longrightarrow> j = i)
         \<and> (\<forall>x \<in> set E. e_process_name x = e_process_name e \<longrightarrow>
               x \<in> set (executions_of h P ?k E))
         \<and> execution_count (generate_execution_stats h P S E ! i)
             = int (length (executions_of h P ?k E))
         \<and> int (length (filter (\<lambda>x. e_process_name x = e_process_name e) E))
             \<le> execution_count (generate_execution_stats h P S E ! i)
         \<and> (?k \<notin> fst ` set P \<longrightarrow>
              process_info (generate_execution_stats h P S E ! i)
                = Some \<lparr>process_id = ?k,
                        process_name = e_process_name (hd (executions_of h P ?k E)),
                        process_type = ''unknown'', folder_name = ''''\<rparr>)"
    by blast
  moreover have "\<forall>P' S' E'.
           create_process_name_to_id_mapping P' (e_process_name e) = None
           \<and> (\<exists>x \<in> set E'. e_process_name x = e_process_name e) \<longrightarrow>
           (\<exists>j < length (generate_execution_stats h P' S' E').
              resolved_ids h P' E' ! j = ?k)"
    using found by blast
  ultimately show ?thesis
    using r fallback_id_decimal [of h "e_process_name e"] by (simp only: simp_thms)
qed

theorem unresolved_name_bucket_witness:
  "run_record ''execution-3'' ''Unknown Flow'' 500 \<in> set repeated_executions
   \<and> create_process_name_to_id_mapping [(''A1'', invoice_sync)]
        (e_process_name (run_record ''execution-3'' ''Unknown Flow'' 500)) = None
   \<and> fallback_id negative_hash (e_process_name (run_record ''execution-3'' ''Unknown Flow'' 500))
        = ''unknown_process_9999''
   \<and> ''unknown_process_9999'' \<notin> fst ` set [(''A1'', invoice_sync)]
   \<and> generate_execution_stats negative_hash [(''A1'', invoice_sync)] idle_sizes
        repeated_executions
      = [\<lparr>process_info = Some \<lparr>process_id = ''unknown_process_9999'',
            process_name = ''Unknown Flow'', process_type = ''unknown'', folder_name = ''''\<rparr>,
          execution_count = 2, total_size_bytes = 1200, max_size_bytes = 700\<rparr>,
         \<lparr>process_info = Some invoice_sync,
          execution_count = 1, total_size_bytes = 3000, max_size_bytes = 2000\<rparr>]
   \<and> length (filter (\<lambda>x. e_process_name x = ''Unknown Flow'') repeated_executions) = 2
   \<and> (\<exists>i < length (generate_execution_stats negative_hash [(''A1'', invoice_sync)] idle_sizes
            repeated_executions).
         resolved_ids negative_hash [(''A1'', invoice_sync)] repeated_executions ! i
           = ''unknown_process_9999''
         \<and> 2 \<le> execution_count (generate_execution_stats negative_hash
               [(''A1'', invoice_sync)] idle_sizes repeated_executions ! i)
         \<and> process_info (generate_execution_stats negative_hash
               [(''A1'', invoice_sync)] idle_sizes repeated_executions ! i)
             = Some \<lparr>process_id = ''unknown_process_9999'', process_name = ''Unknown Flow'',
                     process_type = ''unknown'', folder_name = ''''\<rparr>)"
proof -
  let ?e = "run_record ''execution-3'' ''Unknown Flow'' 500"
  let ?P = "[(''A1'', invoice_sync)]"
  let ?gen = "generate_execution_stats negative_hash ?P idle_sizes repeated_executions"
  have a: "?e \<in> set repeated_executions"
    by (simp add: repeated_executions_def)
  have n: "e_process_name ?e = ''Unknown Flow''"
    by (simp add: run_record_def)
  have b: "create_process_name_to_id_mapping ?P (e_process_name ?e) = None"
    by (simp add: create_process_name_to_id_mapping_def invoice_sync_def run_record_def)
  have f: "fallback_id negative_hash (e_process_name ?e) = ''unknown_process_9999''"
    by (simp add: fallback_id_def negative_hash_def str_int_def str_nat.simps digit_char_def)
  have f': "fallback_id negative_hash ''Unknown Flow'' = ''unknown_process_9999''"
    using f by (simp only: n)
  have c: "fallback_id negative_hash (e_process_name ?e) \<notin> fst ` set ?P"
    by (simp add: f)
  have g: "?gen
      = [\<lparr>process_info = Some \<lparr>process_id = ''unknown_process_9999'',
            process_name = ''Unknown Flow'', process_type = ''unknown'', folder_name = ''''\<rparr>,
          execution_count = 2, total_size_bytes = 1200, max_size_bytes = 700\<rparr>,
         \<lparr>process_info = Some invoice_sync,
          execution_count = 1, total_size_bytes = 3000, max_size_bytes = 2000\<rparr>]"
    using f by (simp add: engine_defs scenario_defs repeated_executions_def)
  have l: "length (filter (\<lambda>x. e_process_name x = ''Unknown Flow'') repeated_executions) = 2"
    by (simp add: repeated_executions_def run_record_def)
  have hd: "e_process_name (hd (executions_of negative_hash ?P ''unknown_process_9999''
      repeated_executions)) = ''Unknown Flow''"
    using f by (simp add: executions_of_def engine_defs scenario_defs repeated_executions_def)
  from unresolved_name_bucket [OF a b, of negative_hash idle_sizes] c
  obtain i where "i < length ?gen"
    and "resolved_ids negative_hash ?P repeated_executions ! i
      = fallback_id negative_hash (e_process_name ?e)"
    and "int (length (filter (\<lambda>x. e_process_name x = e_process_name ?e) repeated_executions))
      \<le> execution_count (?gen ! i)"
    and "process_info (?gen ! i)
      = Some \<lparr>process_id = fallback_id negative_hash (e_process_name ?e),
              process_name = e_process_name (hd (executions_of negative_hash ?P
                (fallback_id negative_hash (e_process_name ?e)) repeated_executions)),
              process_type = ''unknown'', folder_name = ''''\<rparr>"
    by blast
  then have "\<exists>i < length ?gen.
         resolved_ids negative_hash ?P repeated_executions ! i = ''unknown_process_9999''
         \<and> 2 \<le> execution_count (?gen ! i)
         \<and> process_info (?gen ! i)
             = Some \<lparr>process_id = ''unknown_process_9999'', process_name = ''Unknown Flow'',
                     process_type = ''unknown'', folder_name = ''''\<rparr>"
    by (intro exI [of _ i]) (simp add: f' n l hd)
  with a b c f g l show ?thesis by (simp only: simp_thms)
qed

text \<open>
  C6.  The scenario of the specification: one definition \<open>A1\<close> named
  \<open>Invoice Sync\<close> of 1000 bytes, and three executions.  Whatever the hash function,
  the type and folder of the definition and the other fields of the executions are, the
  result has exactly two elements: \<open>Invoice Sync\<close> with count 2, total 6000 and
  maximum 3000, then the placeholder of \<open>Unknown Flow\<close> with count 1, total 500 and
  maximum 500.
\<close>

theorem invoice_sync_scenario:
  "generate_execution_stats h
     [(''A1'', \<lparr>process_id = ''A1'', process_name = ''Invoice Sync'',
               process_type = ty, folder_name = folder\<rparr>)]
     [(''A1'', 1000)]
     [\<lparr>execution_id = r1, e_process_name = ''Invoice Sync'', e_process_id = p1,
       size_bytes = 2000, timestamp = t1\<rparr>,
      \<lparr>execution_id = r2, e_process_name = ''Invoice Sync'', e_process_id = p2,
       size_bytes = 3000, timestamp = t2\<rparr>,
      \<lparr>execution_id = r3, e_process_name = ''Unknown Flow'', e_process_id = p3,
       size_bytes = 500, timestamp = t3\<rparr>]
   = [\<lparr>process_info = Some \<lparr>process_id = ''A1'', process_name = ''Invoice Sync'',
                              process_type = ty, folder_name = folder\<rparr>,
       execution_count = 2, total_size_bytes = 6000, max_size_bytes = 3000\<rparr>,
      \<lparr>process_info = Some \<lparr>process_id = fallback_id h ''Unknown Flow'',
                              process_name = ''Unknown Flow'',
                              process_type = ''unknown'', folder_name = ''''\<rparr>,
       execution_count = 1, total_size_bytes = 500, max_size_bytes = 500\<rparr>]"
  by (simp add: engine_defs fallback_id_not_A1)

text \<open>
  C7.  For a dictionary of definitions, every entry of the index built by
  \<open>create_process_name_to_id_mapping\<close> leads from a display name to an identifier
  whose \<open>ProcessInfo\<close> carries that name; the names indexed are exactly the display
  names that occur; and the entry of a name is the identifier of the last definition, in
  iteration order, that carries it, so a later definition overwrites an earlier one of
  the same name without any error.
\<close>

theorem name_to_id_inverse_last_wins:
  assumes "well_formed_dict P"
  shows "(\<forall>name pid. create_process_name_to_id_mapping P name = Some pid \<longrightarrow>
            (\<exists>pinfo. map_of P pid = Some pinfo \<and> process_name pinfo = name))
       \<and> dom (create_process_name_to_id_mapping P) = (process_name \<circ> snd) ` set P
       \<and> (\<forall>ps pid pinfo qs.
            P = ps @ (pid, pinfo) # qs
            \<and> (\<forall>qinfo \<in> snd ` set qs. process_name qinfo \<noteq> process_name pinfo)
            \<longrightarrow> create_process_name_to_id_mapping P (process_name pinfo) = Some pid)"
proof (intro conjI allI impI)
  fix name pid
  assume "create_process_name_to_id_mapping P name = Some pid"
  then obtain pinfo where "(pid, pinfo) \<in> set P" and "process_name pinfo = name"
    by (blast dest: create_Some_member)
  with assms show "\<exists>pinfo. map_of P pid = Some pinfo \<and> process_name pinfo = name"
    by (auto simp add: well_formed_dict_def)
next
  show "dom (create_process_name_to_id_mapping P) = (process_name \<circ> snd) ` set P"
    by (rule dom_create)
next
  fix ps pid pinfo qs
  assume "P = ps @ (pid, pinfo) # qs
      \<and> (\<forall>qinfo \<in> snd ` set qs. process_name qinfo \<noteq> process_name pinfo)"
  then show "create_process_name_to_id_mapping P (process_name pinfo) = Some pid"
    by (simp add: create_last_wins)
qed

theorem name_to_id_inverse_last_wins_witness:
  "well_formed_dict same_name_processes
   \<and> same_name_processes = [(''A1'', invoice_sync)] @ (''B2'', invoice_sync_copy) # []
   \<and> process_name invoice_sync = process_name invoice_sync_copy
   \<and> create_process_name_to_id_mapping same_name_processes ''Invoice Sync'' = Some ''B2''
   \<and> map_of same_name_processes ''B2'' = Some invoice_sync_copy
   \<and> (\<exists>pinfo. map_of same_name_processes ''B2'' = Some pinfo
         \<and> process_name pinfo = ''Invoice Sync'')"
proof -
  have w: "well_formed_dict same_name_processes"
    by (simp add: well_formed_dict_def same_name_processes_def)
  have s: "same_name_processes = [(''A1'', invoice_sync)] @ (''B2'', invoice_sync_copy) # []"
    by (simp add: same_name_processes_def)
  have n: "process_name invoice_sync_copy = ''Invoice Sync''"
    "process_name invoice_sync = process_name invoice_sync_copy"
    by (simp_all add: invoice_sync_copy_def invoice_sync_def)
  have q: "\<forall>qinfo \<in> snd ` set []. process_name qinfo \<noteq> process_name invoice_sync_copy"
    by simp
  have m: "map_of same_name_processes ''B2'' = Some invoice_sync_copy"
    by (simp add: same_name_processes_def)
  from name_to_id_inverse_last_wins [OF w] s q
  have c: "create_process_name_to_id_mapping same_name_processes (process_name invoice_sync_copy)
      = Some ''B2''"
    by blast
  with name_to_id_inverse_last_wins [OF w]
  have "\<exists>pinfo. map_of same_name_processes ''B2'' = Some pinfo
         \<and> process_name pinfo = process_name invoice_sync_copy"
    by blast
  with w s n m c show ?thesis by (simp only: simp_thms)
qed

text \<open>
  C10 as it is stated does not hold for every input.  When two different unresolved
  names share a fallback identifier, the placeholder of their bucket carries the name of
  whichever execution comes first, so a permutation changes an element of the result.
  Here the two executions collide; in one order the element is named \<open>Flow A\<close>, in
  the other \<open>Flow B\<close>.
\<close>

theorem colliding_names_permutation_counterexample:
  "mset colliding_executions = mset colliding_executions_reordered
   \<and> generate_execution_stats colliding_hash [] [] colliding_executions
      = [\<lparr>process_info = Some \<lparr>process_id = ''unknown_process_7'', process_name = ''Flow A'',
            process_type = ''unknown'', folder_name = ''''\<rparr>,
          execution_count = 2, total_size_bytes = 300, max_size_bytes = 200\<rparr>]
   \<and> generate_execution_stats colliding_hash [] [] colliding_executions_reordered
      = [\<lparr>process_info = Some \<lparr>process_id = ''unknown_process_7'', process_name = ''Flow B'',
            process_type = ''unknown'', folder_name = ''''\<rparr>,
          execution_count = 2, total_size_bytes = 300, max_size_bytes = 200\<rparr>]
   \<and> mset (generate_execution_stats colliding_hash [] [] colliding_executions)
      \<noteq> mset (generate_execution_stats colliding_hash [] [] colliding_executions_reordered)"
proof -
  have f: "fallback_id colliding_hash name = ''unknown_process_7''" for name
    by (simp add: fallback_id_def colliding_hash_def str_int_def str_nat.simps digit_char_def)
  have p: "mset colliding_executions = mset colliding_executions_reordered"
    by (simp add: colliding_executions_def colliding_executions_reordered_def)
  have a: "generate_execution_stats colliding_hash [] [] colliding_executions
      = [\<lparr>process_info = Some \<lparr>process_id = ''unknown_process_7'', process_name = ''Flow A'',
            process_type = ''unknown'', folder_name = ''''\<rparr>,
          execution_count = 2, total_size_bytes = 300, max_size_bytes = 200\<rparr>]"
    by (simp add: engine_defs colliding_executions_def f)
  have b: "generate_execution_stats colliding_hash [] [] colliding_executions_reordered
      = [\<lparr>process_info = Some \<lparr>process_id = ''unknown_process_7'', process_name = ''Flow B'',
            process_type = ''unknown'', folder_name = ''''\<rparr>,
          execution_count = 2, total_size_bytes = 300, max_size_bytes = 200\<rparr>]"
    by (simp add: engine_defs colliding_executions_reordered_def f)
  have "mset (generate_execution_stats colliding_hash [] [] colliding_executions)
      \<noteq> mset (generate_execution_stats colliding_hash [] [] colliding_executions_reordered)"
    by (simp add: a b)
  with p a b show ?thesis by (simp only: simp_thms)
qed

text \<open>
  C10, amended.  For two lists of executions that are permutations of each other, the
  returned lists have one element per resolved identifier, the identifiers are the
  same, and each identifier has the same \<open>execution_count\<close>, \<open>total_size_bytes\<close>
  and \<open>max_size_bytes\<close> in both.  If no two different unresolved names share a
  fallback identifier, the two returned lists are equal up to the order of their
  elements.
\<close>

theorem generate_execution_stats_permutation:
  assumes "mset E = mset E'"
  shows "length (generate_execution_stats h P S E) = length (resolved_ids h P E)
       \<and> length (generate_execution_stats h P S E') = length (resolved_ids h P E')
       \<and> set (resolved_ids h P E) = set (resolved_ids h P E')
       \<and> mset (zip (resolved_ids h P E) (map counters (generate_execution_stats h P S E)))
           = mset (zip (resolved_ids h P E') (map counters (generate_execution_stats h P S E')))
       \<and> (one_name_per_placeholder h P E \<longrightarrow>
            mset (generate_execution_stats h P S E) = mset (generate_execution_stats h P S E'))"
proof -
  have z: "mset (zip (resolved_ids h P E) (map counters (generate_execution_stats h P S E)))
      = mset (zip (resolved_ids h P E') (map counters (generate_execution_stats h P S E')))"
    using summaries_permutation [OF assms, of h P S] distinct_summaries [of h P S E]
      distinct_summaries [of h P S E']
    by (simp only: summaries_as_zip set_eq_iff_mset_eq_distinct)
  have k: "set (resolved_ids h P E) = set (resolved_ids h P E')"
    using mset_eq_setD [OF assms] by (simp add: set_resolved_ids)
  have full: "mset (generate_execution_stats h P S E) = mset (generate_execution_stats h P S E')"
    if "one_name_per_placeholder h P E"
  proof -
    from keyed_permutation [OF assms that, of S]
    have "mset (map snd (keyed_execution_stats h P S E))
        = mset (map snd (keyed_execution_stats h P S E'))"
      by (metis mset_map)
    then show ?thesis
      by (simp only: generate_execution_stats_def)
  qed
  from z k full length_generate_execution_stats [of h P S E]
    length_generate_execution_stats [of h P S E']
  show ?thesis by blast
qed

theorem generate_execution_stats_permutation_witness:
  "mset scenario_executions = mset scenario_executions_reordered
   \<and> one_name_per_placeholder scenario_hash [(''A1'', invoice_sync)] scenario_executions
   \<and> generate_execution_stats scenario_hash [(''A1'', invoice_sync)] idle_sizes
        scenario_executions
      = [invoice_sync_stats,
         \<lparr>process_info = Some (placeholder ''unknown_process_4242'' ''Unknown Flow''),
          execution_count = 1, total_size_bytes = 500, max_size_bytes = 500\<rparr>]
   \<and> generate_execution_stats scenario_hash [(''A1'', invoice_sync)] idle_sizes
        scenario_executions_reordered
      = [\<lparr>process_info = Some (placeholder ''unknown_process_4242'' ''Unknown Flow''),
          execution_count = 1, total_size_bytes = 500, max_size_bytes = 500\<rparr>,
         invoice_sync_stats]
   \<and> resolved_ids scenario_hash [(''A1'', invoice_sync)] scenario_executions
      = [''A1'', ''unknown_process_4242'']
   \<and> resolved_ids scenario_hash [(''A1'', invoice_sync)] scenario_executions_reordered
      = [''unknown_process_4242'', ''A1'']
   \<and> mset (zip (resolved_ids scenario_hash [(''A1'', invoice_sync)] scenario_executions)
        (map counters (generate_execution_stats scenario_hash [(''A1'', invoice_sync)]
           idle_sizes scenario_executions)))
     = mset (zip (resolved_ids scenario_hash [(''A1'', invoice_sync)]
          scenario_executions_reordered)
        (map counters (generate_execution_stats scenario_hash [(''A1'', invoice_sync)]
           idle_sizes scenario_executions_reordered)))
   \<and> mset (generate_execution_stats scenario_hash [(''A1'', invoice_sync)] idle_sizes
        scenario_executions)
     = mset (generate_execution_stats scenario_hash [(''A1'', invoice_sync)] idle_sizes
        scenario_executions_reordered)"
proof -
  let ?P = "[(''A1'', invoice_sync)]"
  have p: "mset scenario_executions = mset scenario_executions_reordered"
    by (simp add: scenario_executions_def scenario_executions_reordered_def)
  have f: "fallback_id scenario_hash ''Unknown Flow'' = ''unknown_process_4242''"
    by (simp add: fallback_id_def scenario_hash_def str_int_def str_nat.simps digit_char_def)
  have one: "one_name_per_placeholder scenario_hash ?P scenario_executions"
    by (simp add: one_name_per_placeholder_def engine_defs scenario_defs f)
  have a: "generate_execution_stats scenario_hash ?P idle_sizes scenario_executions
      = [invoice_sync_stats,
         \<lparr>process_info = Some (placeholder ''unknown_process_4242'' ''Unknown Flow''),
          execution_count = 1, total_size_bytes = 500, max_size_bytes = 500\<rparr>]"
    by (simp add: engine_defs scenario_defs f)
  have b: "generate_execution_stats scenario_hash ?P idle_sizes scenario_executions_reordered
      = [\<lparr>process_info = Some (placeholder ''unknown_process_4242'' ''Unknown Flow''),
          execution_count = 1, total_size_bytes = 500, max_size_bytes = 500\<rparr>,
         invoice_sync_stats]"
    by (simp add: engine_defs scenario_defs scenario_executions_reordered_def f)
  have c: "resolved_ids scenario_hash ?P scenario_executions = [''A1'', ''unknown_process_4242'']"
    by (simp add: resolved_ids_def engine_defs scenario_defs f)
  have d: "resolved_ids scenario_hash ?P scenario_executions_reordered
      = [''unknown_process_4242'', ''A1'']"
    by (simp add: resolved_ids_def engine_defs scenario_defs scenario_executions_reordered_def f)
  from generate_execution_stats_permutation [OF p, of scenario_hash ?P idle_sizes] one
  have "mset (zip (resolved_ids scenario_hash ?P scenario_executions)
        (map counters (generate_execution_stats scenario_hash ?P idle_sizes scenario_executions)))
     = mset (zip (resolved_ids scenario_hash ?P scenario_executions_reordered)
        (map counters (generate_execution_stats scenario_hash ?P idle_sizes
           scenario_executions_reordered)))"
    and "mset (generate_execution_stats scenario_hash ?P idle_sizes scenario_executions)
     = mset (generate_execution_stats scenario_hash ?P idle_sizes scenario_executions_reordered)"
    by blast+
  with p one a b c d show ?thesis by (simp only: simp_thms)
qed

section \<open>The properties of the size scanner\<close>

text \<open>
  C4 as it is stated does not hold.  The \<open>try\<close> encloses the whole loop, so the
  first item that raises ends the walk: the files after it are not counted.  Here a
  directory holds files of 4 and 10 bytes with an inaccessible item between them; the
  function returns 4 with one warning, not 14.
\<close>

theorem scan_drops_later_files_counterexample:
  "get_file_size_recursive (Directory [RegularFile 4, Raises PermissionError, RegularFile 10])
     = Inr (4, [PermissionError])
   \<and> regular_sizes [RegularFile 4, Raises PermissionError, RegularFile 10] = 14"
  by (simp add: scan_defs)

text \<open>
  C4, amended.  When an item of the walk raises an \<open>OSError\<close> (a
  \<open>PermissionError\<close> is one), \<open>get_file_size_recursive\<close> does not raise: it
  prints one warning and returns the sum of the regular files met before that item;
  the items after it are not visited.  A walk in which every raising item raises an
  \<open>OSError\<close> always returns, and a walk without a raising item returns the sum of
  all its regular files with no warning.
\<close>

theorem scan_stops_at_first_error:
  "((\<forall>x. Raises x \<notin> set before) \<and> is_OSError e \<longrightarrow>
      get_file_size_recursive (Directory (before @ Raises e # rest))
        = Inr (regular_sizes before, [e]))
   \<and> ((\<forall>x. Raises x \<in> set items \<longrightarrow> is_OSError x) \<longrightarrow>
      (\<exists>n ws. get_file_size_recursive (Directory items) = Inr (n, ws)))
   \<and> ((\<forall>x. Raises x \<notin> set items) \<longrightarrow>
      get_file_size_recursive (Directory items) = Inr (regular_sizes items, []))"
proof (intro conjI impI)
  assume "(\<forall>x. Raises x \<notin> set before) \<and> is_OSError e"
  then show "get_file_size_recursive (Directory (before @ Raises e # rest))
        = Inr (regular_sizes before, [e])"
    by (simp add: scan_defs walk_first_raise)
next
  assume os: "\<forall>x. Raises x \<in> set items \<longrightarrow> is_OSError x"
  obtain n r where w: "walk items 0 = (n, r)" by (cases "walk items 0")
  show "\<exists>n ws. get_file_size_recursive (Directory items) = Inr (n, ws)"
  proof (cases r)
    case None
    with w show ?thesis by (simp add: scan_defs)
  next
    case (Some x)
    with w have "Raises x \<in> set items" by (simp add: walk_raises_member)
    with os have "is_OSError x" by blast
    with w Some show ?thesis by (simp add: scan_defs)
  qed
next
  assume "\<forall>x. Raises x \<notin> set items"
  then show "get_file_size_recursive (Directory items) = Inr (regular_sizes items, [])"
    by (simp add: scan_defs walk_no_raise)
qed

theorem scan_stops_at_first_error_witness:
  "is_OSError PermissionError
   \<and> get_file_size_recursive
        (Directory ([RegularFile 4, NotAFile] @ Raises PermissionError # [RegularFile 10]))
       = Inr (regular_sizes [RegularFile 4, NotAFile], [PermissionError])
   \<and> regular_sizes [RegularFile 4, NotAFile] = 4
   \<and> get_file_size_recursive (Directory [RegularFile 4, NotAFile, RegularFile 10])
       = Inr (regular_sizes [RegularFile 4, NotAFile, RegularFile 10], [])
   \<and> regular_sizes [RegularFile 4, NotAFile, RegularFile 10] = 14"
proof -
  have a: "(\<forall>x. Raises x \<notin> set [RegularFile 4, NotAFile]) \<and> is_OSError PermissionError"
    by simp
  have b: "\<forall>x. Raises x \<notin> set [RegularFile 4, NotAFile, RegularFile 10]"
    by simp
  have c: "regular_sizes [RegularFile 4, NotAFile] = 4"
    "regular_sizes [RegularFile 4, NotAFile, RegularFile 10] = 14"
    by simp_all
  from scan_stops_at_first_error [of "[RegularFile 4, NotAFile]" PermissionError "[RegularFile 10]"
      "[RegularFile 4, NotAFile, RegularFile 10]"] a b c
  show ?thesis by blast
qed




section \<open>The properties of the accessors and of the report\<close>

text \<open>
  C8.  For every \<open>ExecutionStats\<close> value, \<open>avg_size_mb\<close> is
  \<open>total_size_mb\<close> divided by \<open>execution_count\<close> when the count is positive and
  is 0.0 when the count is 0; it always returns a number and never fails with
  \<open>ZeroDivisionError\<close>.
\<close>

theorem avg_size_mb_guarded:
  "(0 < execution_count s \<longrightarrow>
      avg_size_mb s = Inr (total_size_mb s / real_of_int (execution_count s)))
   \<and> (execution_count s = 0 \<longrightarrow> avg_size_mb s = Inr 0)
   \<and> avg_size_mb s \<noteq> Inl ZeroDivisionError
   \<and> (\<exists>r. avg_size_mb s = Inr r)"
  by (simp add: avg_size_mb_def truediv_def)

theorem avg_size_mb_guarded_witness:
  "0 < execution_count invoice_sync_stats
   \<and> avg_size_mb invoice_sync_stats = Inr (total_size_mb invoice_sync_stats / 2)
   \<and> total_size_mb invoice_sync_stats = 6000 / (1024 * 1024)
   \<and> execution_count (invoice_sync_stats\<lparr>execution_count := 0\<rparr>) = 0
   \<and> avg_size_mb (invoice_sync_stats\<lparr>execution_count := 0\<rparr>) = Inr 0"
proof -
  have a: "0 < execution_count invoice_sync_stats" "execution_count invoice_sync_stats = 2"
    by (simp_all add: invoice_sync_stats_def)
  have b: "execution_count (invoice_sync_stats\<lparr>execution_count := 0\<rparr>) = 0"
    by simp
  have c: "total_size_mb invoice_sync_stats = 6000 / (1024 * 1024)"
    by (simp add: total_size_mb_def invoice_sync_stats_def)
  from avg_size_mb_guarded [of invoice_sync_stats] a
  have d: "avg_size_mb invoice_sync_stats = Inr (total_size_mb invoice_sync_stats / 2)"
    by simp
  from avg_size_mb_guarded [of "invoice_sync_stats\<lparr>execution_count := 0\<rparr>"] b
  have e: "avg_size_mb (invoice_sync_stats\<lparr>execution_count := 0\<rparr>) = Inr 0"
    by blast
  from a(1) b c d e show ?thesis by (simp only: simp_thms)
qed

text \<open>
  C5.  The report for one definition \<open>A1\<close> of 1000 bytes with a single execution of
  2000 bytes.  The row has the eleven columns in the order of the header, but its
  column \<open>Process Definition Size (MB)\<close> holds the integer 0 although the definition
  size is 1000 bytes, and its column \<open>Execution Logs Size (MB)\<close> holds the whole
  total of 3000 bytes, definition included.
\<close>

theorem csv_definition_column_zero:
  "definition_size [(''A1'', 1000)] ''A1'' = 1000
   \<and> write_csv_report
       (generate_execution_stats h [(''A1'', invoice_sync)] [(''A1'', 1000)]
          [run_record ''execution-1'' ''Invoice Sync'' 2000])
     = Inr [map Text csv_header,
            [Text ''Invoice Sync'', Text ''A1'', Text ''process'', Text ''Finance'',
             Whole 1, Whole 3000, Decimal (3000 / (1024 * 1024)),
             Decimal (3000 / (1024 * 1024)), Decimal (2000 / (1024 * 1024)),
             Whole 0, Decimal (3000 / (1024 * 1024))]]"
  by (simp add: definition_size_def engine_defs invoice_sync_def write_csv_report_def
      csv_row_def process_definition_size_mb_def avg_size_mb_def truediv_def
      total_size_mb_def max_size_mb_def)

end
